theory Spec2Isabelle
  imports Complex_Main "HOL-Library.Multiset"
begin

section \<open>The FSRS scheduler of fsi-srs.js\<close>

text \<open>
  The scheduler object \<open>FSI_SRS\<close> of \<open>www/js/fsi-srs.js\<close> as explicit state passing.

  Conventions of the embedding:
  \<^item> a JavaScript number that holds a stability, a difficulty, a commonality or an
    interval in days is a \<open>real\<close>: rounding, \<open>Infinity\<close> and \<open>NaN\<close> of IEEE doubles are
    outside the model; counters are \<open>nat\<close>;
  \<^item> a \<open>Date\<close> (and its ISO string) is an \<open>int\<close>, the milliseconds since the epoch;
    \<open>setMinutes\<close> and \<open>setDate\<close> step the local wall-clock fields, so the host's time zone
    is part of the state (\<open>zone\<close>); every \<open>new Date()\<close> of one call reads the same instant
    \<open>now\<close>, which is a parameter of the operation;
  \<^item> card objects are shared by reference between \<open>cards\<close>, \<open>sessionQueue\<close> and the
    values returned to the caller; \<open>heap\<close> maps a reference to the object it denotes, and
    \<open>cards\<close> and \<open>sessionQueue\<close> hold references;
  \<^item> the object \<open>cards\<close> is the list of its own entries in \<open>Object.entries\<close> order; a
    lookup \<open>this.cards[id]\<close> reads the own entries and then the prototype chain, which for
    a plain object is \<open>Object.prototype\<close> (\<open>lookup_card\<close>). A built-in object found there
    has none of the fields of a card. Once a call has written to such an object, or has
    replaced the chain, the model no longer follows lookups that leave the own entries
    (\<open>prototype_touched\<close>, outcome \<open>OutsideModel\<close>);
  \<^item> \<open>Math.random()\<close> is a list \<open>rs\<close> of natural numbers: the draw at loop index \<open>i\<close> of
    the shuffle yields \<open>r mod (i + 1)\<close>;
  \<^item> persistence (\<open>saveCards\<close>) and logging do not change the scheduler's state and are
    left out.
\<close>

subsection \<open>Data\<close>

datatype Rating = Again | Hard | Good | Easy

fun rating_num :: "Rating \<Rightarrow> nat" where
  "rating_num Again = 1"
| "rating_num Hard = 2"
| "rating_num Good = 3"
| "rating_num Easy = 4"

datatype State = New | Learning | Review | Relearning

record error_entry =
  err_type :: string
  timestamp :: int

record Card =
  card_id :: string
  due :: int
  stability :: real
  difficulty :: real
  elapsed_days :: real
  scheduled_days :: real
  reps :: nat
  lapses :: nat
  state :: State
  last_review :: "int option"
  learning_step :: nat
  pos_pattern :: string
  commonality :: real
  unit_no :: int
  error_history :: "error_entry list"
  graduated :: bool
  graduation_date :: "int option"
  consecutive_correct :: nat

record drill_meta =
  pattern_group :: "string option"
  is_canonical :: bool

record srs_params =
  w :: "real list"
  requestRetention :: real
  maximumInterval :: nat
  learningSteps :: "nat list"
  relearningSteps :: "nat list"
  graduatingInterval :: nat
  easyInterval :: nat
  graduationConsecutive :: nat
  graduationMinInterval :: nat
  reactivationLapseThreshold :: nat

record session_stats =
  reviewed :: nat
  correct :: nat
  incorrect :: nat

text \<open>
  The host's time zone as ECMAScript reads it: \<open>tza_of_utc t\<close> is \<open>LocalTZA(t, true)\<close>, the
  offset in force at the instant \<open>t\<close>; \<open>tza_of_local x\<close> is \<open>LocalTZA(x, false)\<close>, the offset
  by which the local time value \<open>x\<close> is read (the offset before the transition when the
  local time is repeated or skipped).
\<close>

record time_zone =
  tza_of_utc :: "int \<Rightarrow> int"
  tza_of_local :: "int \<Rightarrow> int"

record srs =
  params :: srs_params
  zone :: time_zone
  drillMeta :: "string \<rightharpoonup> drill_meta"
  heap :: "nat \<Rightarrow> Card"
  next_ref :: nat
  cards :: "(string \<times> nat) list"
  sessionQueue :: "nat list"
  lastPattern :: "string option"
  sessionStats :: session_stats
  prototype_touched :: bool

definition default_params :: srs_params where
  "default_params =
    \<lparr> w = [0.4, 0.6, 2.4, 5.8, 4.93, 0.94, 0.86, 0.01,
           1.49, 0.14, 0.94, 2.18, 0.05, 0.34, 1.26, 0.29, 2.61],
      requestRetention = 0.9,
      maximumInterval = 36500,
      learningSteps = [1, 10],
      relearningSteps = [1, 10],
      graduatingInterval = 1,
      easyInterval = 4,
      graduationConsecutive = 5,
      graduationMinInterval = 16,
      reactivationLapseThreshold = 2 \<rparr>"

definition minute_ms :: int where
  "minute_ms = 60000"

definition day_ms :: int where
  "day_ms = 86400000"

definition LocalTime :: "time_zone \<Rightarrow> int \<Rightarrow> int" where
  "LocalTime z t = t + tza_of_utc z t"

definition UTC :: "time_zone \<Rightarrow> int \<Rightarrow> int" where
  "UTC z x = x - tza_of_local z x"

text \<open>
  \<open>d.setMinutes(d.getMinutes() + m)\<close> and \<open>d.setDate(d.getDate() + n)\<close>: the local time
  value of \<open>d\<close> moved by \<open>m\<close> minutes or \<open>n\<close> days, read back as an instant.
\<close>

definition add_minutes :: "time_zone \<Rightarrow> int \<Rightarrow> int \<Rightarrow> int" where
  "add_minutes z t m = UTC z (LocalTime z t + m * minute_ms)"

definition add_days :: "time_zone \<Rightarrow> int \<Rightarrow> int \<Rightarrow> int" where
  "add_days z t n = UTC z (LocalTime z t + n * day_ms)"

definition utc_zone :: time_zone where
  "utc_zone = \<lparr>tza_of_utc = (\<lambda>_. 0), tza_of_local = (\<lambda>_. 0)\<rparr>"

text \<open>
  America/New_York around the end of daylight saving on 2026-11-01: the offset is -4 h
  before 06:00 UTC (1793512800000) and -5 h from then on; a local time that the earlier
  offset places before the transition is read by the earlier offset.
\<close>

definition new_york_fall_2026 :: time_zone where
  "new_york_fall_2026 =
     \<lparr>tza_of_utc = (\<lambda>t. if t < 1793512800000 then - 4 * 60 * minute_ms else - 5 * 60 * minute_ms),
      tza_of_local = (\<lambda>x. if x + 4 * 60 * minute_ms < 1793512800000
                           then - 4 * 60 * minute_ms else - 5 * 60 * minute_ms)\<rparr>"

text \<open>Truthiness of an optional string: \<open>null\<close> and the empty string are falsy.\<close>

fun truthy :: "string option \<Rightarrow> bool" where
  "truthy None = False"
| "truthy (Some s) = (s \<noteq> [])"

subsection \<open>Property lookup\<close>

text \<open>The names every plain object inherits from \<open>Object.prototype\<close>; each reads as a truthy value.\<close>

definition object_prototype_names :: "string list" where
  "object_prototype_names =
     [''constructor'', ''__defineGetter__'', ''__defineSetter__'', ''hasOwnProperty'',
      ''__lookupGetter__'', ''__lookupSetter__'', ''isPrototypeOf'', ''propertyIsEnumerable'',
      ''toString'', ''valueOf'', ''__proto__'', ''toLocaleString'']"

datatype lookup = Absent | OwnCard nat | Inherited | Unknown

subsection \<open>Card creation\<close>

record sentence_data =
  sd_pos_pattern :: "string option"
  sd_commonality :: "real option"
  sd_unit :: "int option"

definition createCard :: "string \<Rightarrow> sentence_data \<Rightarrow> int \<Rightarrow> Card" where
  "createCard i sentenceData now =
    \<lparr> card_id = i,
      due = now,
      stability = 0,
      difficulty = 0,
      elapsed_days = 0,
      scheduled_days = 0,
      reps = 0,
      lapses = 0,
      state = New,
      last_review = None,
      learning_step = 0,
      pos_pattern = (case sd_pos_pattern sentenceData of None \<Rightarrow> [] | Some s \<Rightarrow> s),
      commonality = (case sd_commonality sentenceData of
                       None \<Rightarrow> 0.5 | Some x \<Rightarrow> if x = 0 then 0.5 else x),
      unit_no = (case sd_unit sentenceData of
                   None \<Rightarrow> 1 | Some u \<Rightarrow> if u = 0 then 1 else u),
      error_history = [],
      graduated = False,
      graduation_date = None,
      consecutive_correct = 0 \<rparr>"

subsection \<open>FSRS core functions\<close>

text \<open>
  \<open>Math.round\<close> rounds halves up. The code rounds its argument to binary64 first, which
  can carry a value just below a half across it; the model rounds the exact real.
\<close>

definition js_round :: "real \<Rightarrow> int" where
  "js_round x = \<lfloor>x + 1 / 2\<rfloor>"

definition retrievability :: "real \<Rightarrow> real \<Rightarrow> real" where
  "retrievability elapsedDays s =
     (if s \<le> 0 then 0 else 1 / (1 + elapsedDays / (9 * s)))"

definition nextInterval :: "real \<Rightarrow> real \<Rightarrow> int" where
  "nextInterval s retention =
     (if s \<le> 0 then 1 else js_round (9 * s * (1 / retention - 1)))"

definition initStability :: "srs_params \<Rightarrow> Rating \<Rightarrow> real" where
  "initStability p grade = w p ! (rating_num grade - 1)"

definition initDifficulty :: "srs_params \<Rightarrow> Rating \<Rightarrow> real" where
  "initDifficulty p grade =
     max 1 (min 10 (w p ! 4 - (real (rating_num grade) - 3) * w p ! 5))"

text \<open>
  \<open>Math.pow\<close> is \<open>powr\<close>, which agrees with it on a positive base; in
  \<open>retrievability\<close> above, \<open>Math.pow(x, -1)\<close> is the quotient \<open>1 / x\<close>. On a base that is
  not positive the code computes \<open>Infinity\<close> or \<open>NaN\<close>, which no real stands for, and the two
  functions below describe it for a stability \<open>s > 0\<close> and a difficulty \<open>d > 0\<close> only: for a
  Review card of stability 0 graded Hard, Good or Easy the code's new stability is \<open>NaN\<close>,
  the due date is invalid and line 341 raises a RangeError, where the model goes on with
  the stability 0.
\<close>

definition nextReviewStability :: "srs_params \<Rightarrow> real \<Rightarrow> real \<Rightarrow> real \<Rightarrow> Rating \<Rightarrow> real" where
  "nextReviewStability p d s r grade =
     (let hardPenalty = (if grade = Hard then w p ! 15 else 1);
          easyBonus = (if grade = Easy then w p ! 16 else 1);
          sinc = exp (w p ! 8) *
                 (11 - d) *
                 (s powr (- (w p ! 9))) *
                 (exp (w p ! 10 * (1 - r)) - 1) *
                 hardPenalty *
                 easyBonus
      in s * (sinc + 1))"

definition nextForgetStability :: "srs_params \<Rightarrow> real \<Rightarrow> real \<Rightarrow> real \<Rightarrow> real" where
  "nextForgetStability p d s r =
     w p ! 11 *
     (d powr (- (w p ! 12))) *
     ((s + 1) powr (w p ! 13) - 1) *
     exp (w p ! 14 * (1 - r))"

definition nextDifficulty :: "srs_params \<Rightarrow> real \<Rightarrow> Rating \<Rightarrow> real" where
  "nextDifficulty p d grade =
     (let d0 = initDifficulty p Good;
          newD = w p ! 7 * d0 + (1 - w p ! 7) * (d - w p ! 6 * (real (rating_num grade) - 3))
      in max 1 (min 10 newD))"

text \<open>
  \<open>this.cards[cardId]\<close>: an own card, a built-in inherited from \<open>Object.prototype\<close>,
  nothing, or a value the model does not follow.
\<close>

definition lookup_card :: "srs \<Rightarrow> string \<Rightarrow> lookup" where
  "lookup_card st cardId =
     (case map_of (cards st) cardId of
        Some a \<Rightarrow> OwnCard a
      | None \<Rightarrow>
          if prototype_touched st then Unknown
          else if cardId \<in> set object_prototype_names then Inherited
          else Absent)"

text \<open>
  The error history \<open>_checkReactivation\<close> reads from the looked-up card (line 696,
  \<open>card.error_history || []\<close>): a built-in has none.
\<close>

definition card_history :: "srs \<Rightarrow> string \<Rightarrow> error_entry list option" where
  "card_history st cardId =
     (case lookup_card st cardId of
        OwnCard a \<Rightarrow> Some (error_history (heap st a))
      | Inherited \<Rightarrow> Some []
      | Absent \<Rightarrow> None
      | Unknown \<Rightarrow> None)"

subsection \<open>Pattern groups\<close>

definition upd_card :: "nat \<Rightarrow> (Card \<Rightarrow> Card) \<Rightarrow> srs \<Rightarrow> srs" where
  "upd_card a f st = st\<lparr>heap := (heap st)(a := f (heap st a))\<rparr>"

definition in_pattern_group :: "srs \<Rightarrow> string option \<Rightarrow> string \<Rightarrow> bool" where
  "in_pattern_group st patternGroup k =
     (case drillMeta st k of None \<Rightarrow> False | Some m \<Rightarrow> pattern_group m = patternGroup)"

definition getSiblingCards :: "srs \<Rightarrow> string option \<Rightarrow> nat list" where
  "getSiblingCards st patternGroup =
     (if \<not> truthy patternGroup then []
      else map snd (filter (\<lambda>(k, a). in_pattern_group st patternGroup k) (cards st)))"

definition getGraduatedSiblings :: "srs \<Rightarrow> string option \<Rightarrow> nat list" where
  "getGraduatedSiblings st patternGroup =
     filter (\<lambda>a. graduated (heap st a)) (getSiblingCards st patternGroup)"

text \<open>
  Fisher-Yates: \<open>for (i = a.length - 1; i > 0; i--)\<close> swaps \<open>a[i]\<close> with \<open>a[j]\<close>,
  \<open>j = floor(random() * (i + 1))\<close>. An exhausted random source yields 0.
\<close>

fun shuffle_loop :: "nat \<Rightarrow> nat list \<Rightarrow> 'a list \<Rightarrow> 'a list" where
  "shuffle_loop 0 rs a = a"
| "shuffle_loop (Suc i) rs a =
     (let j = (case rs of [] \<Rightarrow> 0 | r # _ \<Rightarrow> r mod (Suc i + 1))
      in shuffle_loop i (tl rs) (a[Suc i := a ! j, j := a ! Suc i]))"

definition shuffle :: "'a list \<Rightarrow> nat list \<Rightarrow> 'a list" where
  "shuffle arr rs = shuffle_loop (length arr - 1) rs arr"

subsection \<open>Graduation and reactivation\<close>

text \<open>
  A lookup \<open>this.drillMeta[id]\<close> that finds no own entry but a built-in reads as one that
  finds nothing: a built-in has no \<open>pattern_group\<close> and no \<open>is_canonical\<close>, so the graduation
  check finds no sibling and the reactivation check returns. The map \<open>drillMeta\<close> holds the
  own entries.

  \<open>this.drillMeta[id].is_canonical = b\<close>. Where \<open>drillMeta\<close> has no own entry for \<open>id\<close>, the
  assignment writes to the built-in that an inherited name finds, and raises a TypeError
  otherwise: the result is \<open>None\<close>. In a store whose cards are filed under their own ids the
  two ids of a swap have own entries.
\<close>

definition set_canonical :: "string \<Rightarrow> bool \<Rightarrow> srs \<Rightarrow> srs option" where
  "set_canonical k b st =
     (case drillMeta st k of
        None \<Rightarrow>
          if k \<in> set object_prototype_names then Some (st\<lparr>prototype_touched := True\<rparr>)
          else None
      | Some m \<Rightarrow> Some (st\<lparr>drillMeta := (drillMeta st)(k \<mapsto> m\<lparr>is_canonical := b\<rparr>)\<rparr>))"

text \<open>The field assignments of lines 658-659 and 674-675, 662-665, and 708-712.\<close>

definition graduate :: "int \<Rightarrow> Card \<Rightarrow> Card" where
  "graduate now c = c\<lparr>graduated := True, graduation_date := Some now\<rparr>"

definition promote :: "int \<Rightarrow> Card \<Rightarrow> Card" where
  "promote now c = c\<lparr>graduated := False, consecutive_correct := 0, state := Review, due := now\<rparr>"

definition restore :: "int \<Rightarrow> Card \<Rightarrow> Card" where
  "restore now c =
     c\<lparr>graduated := False, state := Relearning, consecutive_correct := 0,
       learning_step := 0, due := now\<rparr>"

text \<open>
  \<open>_checkGraduation(card, grade)\<close>, the card given by its reference. The second component
  is \<open>True\<close> when the call raised; the state is the one reached at that point.
\<close>

definition checkGraduation :: "srs \<Rightarrow> nat \<Rightarrow> Rating \<Rightarrow> int \<Rightarrow> nat list \<Rightarrow> srs \<times> bool" where
  "checkGraduation st a grade now rs =
     (if rating_num grade < rating_num Good then (st, False)
      else if graduated (heap st a) then (st, False)
      else case drillMeta st (card_id (heap st a)) of
        None \<Rightarrow> (st, False)
      | Some meta \<Rightarrow>
          let consecutive = consecutive_correct (heap st a);
              interval = scheduled_days (heap st a)
          in
          if consecutive \<ge> graduationConsecutive (params st) \<and>
             interval \<ge> real (graduationMinInterval (params st)) then
            let siblings = getSiblingCards st (pattern_group meta);
                graduatedSiblings =
                  filter (\<lambda>s. graduated (heap st s) \<and> card_id (heap st s) \<noteq> card_id (heap st a))
                    siblings;
                activeSiblings =
                  filter (\<lambda>s. \<not> graduated (heap st s) \<and> card_id (heap st s) \<noteq> card_id (heap st a))
                    siblings
            in
            if is_canonical meta then
              (if length graduatedSiblings > 0 then
                 let newCanonical = hd (shuffle graduatedSiblings rs);
                     st1 = upd_card a (graduate now) st
                 in case set_canonical (card_id (heap st1 a)) False st1 of
                      None \<Rightarrow> (st1, True)
                    | Some st2 \<Rightarrow>
                        let st3 = upd_card newCanonical (promote now) st2
                        in (case set_canonical (card_id (heap st3 newCanonical)) True st3 of
                              None \<Rightarrow> (st3, True)
                            | Some st4 \<Rightarrow> (st4, False))
               else (st, False))
            else
              (if length activeSiblings > 0 then (upd_card a (graduate now) st, False)
               else (st, False))
          else (st, False))"

definition reactivate :: "int \<Rightarrow> srs \<Rightarrow> nat \<Rightarrow> srs" where
  "reactivate now st sibling = upd_card sibling (restore now) st"

definition count_recent :: "time_zone \<Rightarrow> error_entry list \<Rightarrow> int \<Rightarrow> nat" where
  "count_recent z h now =
     (let thirtyDaysAgo = add_days z now (- 30)
      in length (filter (\<lambda>err. timestamp err > thirtyDaysAgo) h))"

definition recentLapses :: "time_zone \<Rightarrow> Card \<Rightarrow> int \<Rightarrow> nat" where
  "recentLapses z c now = count_recent z (error_history c) now"

definition checkReactivation :: "srs \<Rightarrow> string \<Rightarrow> int \<Rightarrow> nat list \<Rightarrow> srs" where
  "checkReactivation st cardId now rs =
     (case drillMeta st cardId of
        None \<Rightarrow> st
      | Some meta \<Rightarrow>
          if \<not> is_canonical meta then st
          else if \<not> truthy (pattern_group meta) then st
          else case card_history st cardId of
            None \<Rightarrow> st
          | Some h \<Rightarrow>
              if count_recent (zone st) h now \<ge> reactivationLapseThreshold (params st) then
                let grads = getGraduatedSiblings st (pattern_group meta);
                    toReactivate = take 3 (shuffle grads rs)
                in foldl (reactivate now) st toReactivate
              else st)"

subsection \<open>Review processing\<close>

text \<open>Lines 261-270: the optional error record, the history capped at its last 10 entries.\<close>

definition track_error :: "Card \<Rightarrow> string option \<Rightarrow> int \<Rightarrow> Card" where
  "track_error c errorInfo now =
     (case errorInfo of
        None \<Rightarrow> c
      | Some ty \<Rightarrow>
          let h = error_history c @ [\<lparr>err_type = ty, timestamp = now\<rparr>]
          in c\<lparr>error_history := (if length h > 10 then tl h else h)\<rparr>)"

text \<open>
  \<open>steps[i]\<close>: beyond the end of the array the read is \<open>undefined\<close>, which the test
  \<open>intervalMinutes > 0\<close> treats like 0.
\<close>

definition step_at :: "nat list \<Rightarrow> nat \<Rightarrow> int" where
  "step_at steps i = (if i < length steps then int (steps ! i) else 0)"

text \<open>
  Lines 276-308, the card in state New, Learning or Relearning. The result is the
  updated card, \<open>intervalMinutes\<close> and \<open>intervalDays\<close>.
\<close>

definition learning_branch :: "srs_params \<Rightarrow> Card \<Rightarrow> Rating \<Rightarrow> Card \<times> int \<times> int" where
  "learning_branch p c grade =
     (let steps = (if state c = Relearning then relearningSteps p else learningSteps p)
      in
      if grade = Again then
        (c\<lparr>learning_step := 0,
           state := (if state c = New then Learning else Relearning)\<rparr>,
         step_at steps 0, 0)
      else if grade = Easy then
        (c\<lparr>state := Review, learning_step := 0,
           stability := initStability p grade,
           difficulty := initDifficulty p grade\<rparr>,
         0, int (easyInterval p))
      else
        (let k = learning_step c + 1
         in if k \<ge> length steps then
              (c\<lparr>state := Review, learning_step := 0,
                 stability := initStability p grade,
                 difficulty := initDifficulty p grade\<rparr>,
               0, if grade = Hard then 1 else int (graduatingInterval p))
            else
              (c\<lparr>learning_step := k,
                 state := (if state c = New then Learning else state c)\<rparr>,
               step_at steps k, 0)))"

text \<open>Lines 310-326, the card in state Review.\<close>

definition review_branch :: "srs_params \<Rightarrow> Card \<Rightarrow> Rating \<Rightarrow> real \<Rightarrow> Card \<times> int \<times> int" where
  "review_branch p c grade elapsedDays =
     (let r = retrievability elapsedDays (stability c)
      in
      if grade = Again then
        (c\<lparr>stability := nextForgetStability p (difficulty c) (stability c) r,
           lapses := lapses c + 1,
           state := Relearning,
           learning_step := 0\<rparr>,
         step_at (relearningSteps p) 0, 0)
      else
        (let s' = nextReviewStability p (difficulty c) (stability c) r grade
         in (c\<lparr>stability := s',
               difficulty := nextDifficulty p (difficulty c) grade\<rparr>,
             0, min (nextInterval s' (requestRetention p)) (int (maximumInterval p)))))"

text \<open>Lines 328-341: the due date and the bookkeeping fields.\<close>

definition set_due :: "time_zone \<Rightarrow> Card \<Rightarrow> int \<Rightarrow> int \<Rightarrow> int \<Rightarrow> real \<Rightarrow> Card" where
  "set_due z c now intervalMinutes intervalDays elapsedDays =
     (let dueDate = (if intervalMinutes > 0 then add_minutes z now intervalMinutes
                     else add_days z now intervalDays);
          sched = (if intervalMinutes > 0 then real_of_int intervalMinutes / (60 * 24)
                   else real_of_int intervalDays)
      in c\<lparr>scheduled_days := sched,
           elapsed_days := elapsedDays,
           reps := reps c + 1,
           last_review := Some now,
           due := dueDate\<rparr>)"

text \<open>Lines 347-356: the session counters and the streak of the card.\<close>

definition update_stats :: "session_stats \<Rightarrow> Rating \<Rightarrow> session_stats" where
  "update_stats ss grade =
     (if rating_num grade \<ge> rating_num Good
      then ss\<lparr>reviewed := reviewed ss + 1, correct := correct ss + 1\<rparr>
      else ss\<lparr>reviewed := reviewed ss + 1, incorrect := incorrect ss + 1\<rparr>)"

definition update_streak :: "Card \<Rightarrow> Rating \<Rightarrow> Card" where
  "update_streak c grade =
     (if rating_num grade \<ge> rating_num Good
      then c\<lparr>consecutive_correct := consecutive_correct c + 1\<rparr>
      else c\<lparr>consecutive_correct := 0\<rparr>)"

text \<open>The card as \<open>processReview\<close> leaves it before the graduation check (lines 256-356).\<close>

definition review_card ::
  "srs_params \<Rightarrow> time_zone \<Rightarrow> Card \<Rightarrow> Rating \<Rightarrow> string option \<Rightarrow> int \<Rightarrow> Card \<times> int \<times> int" where
  "review_card p z c0 grade errorInfo now =
     (let lastReview = (case last_review c0 of None \<Rightarrow> now | Some t \<Rightarrow> t);
          elapsedDays = real_of_int (now - lastReview) / (1000 * 60 * 60 * 24);
          c1 = track_error c0 errorInfo now;
          (c2, intervalMinutes, intervalDays) =
             (if state c1 = New \<or> state c1 = Learning \<or> state c1 = Relearning
              then learning_branch p c1 grade
              else review_branch p c1 grade elapsedDays);
          c3 = set_due z c2 now intervalMinutes intervalDays elapsedDays
      in (update_streak c3 grade, intervalMinutes, intervalDays))"

text \<open>
  The state once the card is written: the mutated card object, \<open>lastPattern\<close> (line 344)
  and the session counters (lines 347-356).
\<close>

definition commit_review :: "srs \<Rightarrow> nat \<Rightarrow> Card \<Rightarrow> Rating \<Rightarrow> srs" where
  "commit_review st a c grade =
     (upd_card a (\<lambda>_. c) st)
       \<lparr>lastPattern := Some (pos_pattern c),
        sessionStats := update_stats (sessionStats st) grade\<rparr>"

datatype interval_display = Minutes int | Days int

text \<open>The returned \<open>card\<close> is a reference, or \<open>None\<close> for a built-in object.\<close>

record review_result =
  res_card :: "nat option"
  res_interval :: real
  intervalDisplay :: interval_display
  nextDue :: int

text \<open>
  What a call does: it returns \<open>null\<close> or a result, raises a TypeError (a property read on
  \<open>undefined\<close>) or a RangeError (\<open>toISOString\<close> of an invalid date), or goes where the model
  does not follow.
\<close>

datatype outcome = ReturnedNull | Returned review_result | TypeError | RangeError | OutsideModel

text \<open>
  \<open>processReview\<close> on a built-in object that no call has written yet. Every card field
  reads \<open>undefined\<close>. With an \<open>errorInfo\<close>, line 262 raises on
  \<open>card.error_history.push\<close>. Otherwise \<open>card.state\<close> is no learning state and the Review
  branch runs on \<open>NaN\<close>: graded Again the call goes through like a lapse (line 344 records
  the \<open>undefined\<close> pattern, the session counters advance, and the reactivation check reads
  an empty error history); on another grade \<open>intervalDays\<close> is \<open>NaN\<close>, the due date is
  invalid and line 341 raises before \<open>lastPattern\<close> and the counters are reached. The fields
  written to the built-in are not part of the state; \<open>prototype_touched\<close> records that they
  were written.
\<close>

definition builtin_review ::
  "srs \<Rightarrow> string \<Rightarrow> Rating \<Rightarrow> string option \<Rightarrow> int \<Rightarrow> nat list \<Rightarrow> srs \<times> outcome" where
  "builtin_review st cardId grade errorInfo now rs =
     (if errorInfo \<noteq> None then (st, TypeError)
      else if grade \<noteq> Again then (st\<lparr>prototype_touched := True\<rparr>, RangeError)
      else
        let intervalMinutes = step_at (relearningSteps (params st)) 0;
            dueDate = (if intervalMinutes > 0 then add_minutes (zone st) now intervalMinutes
                       else add_days (zone st) now 0);
            st1 = st\<lparr>lastPattern := None,
                     sessionStats := update_stats (sessionStats st) grade\<rparr>;
            st2 = checkReactivation st1 cardId now rs
        in (st2\<lparr>prototype_touched := True\<rparr>,
            Returned
              \<lparr>res_card = None,
               res_interval = (if intervalMinutes > 0
                               then real_of_int intervalMinutes / (60 * 24) else 0),
               intervalDisplay = (if intervalMinutes > 0 then Minutes intervalMinutes
                                  else Days 0),
               nextDue = dueDate\<rparr>))"

definition processReview ::
  "srs \<Rightarrow> string \<Rightarrow> Rating \<Rightarrow> string option \<Rightarrow> int \<Rightarrow> nat list \<Rightarrow> srs \<times> outcome" where
  "processReview st cardId grade errorInfo now rs =
     (case lookup_card st cardId of
        Absent \<Rightarrow> (st, ReturnedNull)
      | Unknown \<Rightarrow> (st, OutsideModel)
      | Inherited \<Rightarrow> builtin_review st cardId grade errorInfo now rs
      | OwnCard a \<Rightarrow>
          let (c, intervalMinutes, intervalDays) =
                review_card (params st) (zone st) (heap st a) grade errorInfo now;
              st1 = commit_review st a c grade;
              (st2, raised) = checkGraduation st1 a grade now rs
          in if raised then (st2, TypeError)
             else
               let st3 = (if grade = Again then checkReactivation st2 cardId now rs else st2)
               in (st3,
                   Returned
                     \<lparr>res_card = Some a,
                      res_interval = (if intervalMinutes > 0
                                      then real_of_int intervalMinutes / (60 * 24)
                                      else real_of_int intervalDays),
                      intervalDisplay = (if intervalMinutes > 0 then Minutes intervalMinutes
                                         else Days intervalDays),
                      nextDue = due (heap st3 a)\<rparr>))"

fun run_reviews :: "srs \<Rightarrow> (string \<times> Rating \<times> string option \<times> int \<times> nat list) list \<Rightarrow> srs" where
  "run_reviews st [] = st"
| "run_reviews st ((cardId, grade, errorInfo, now, rs) # evs) =
     run_reviews (fst (processReview st cardId grade errorInfo now rs)) evs"

subsection \<open>Queue management\<close>

definition getDueCards :: "srs \<Rightarrow> int \<Rightarrow> nat list" where
  "getDueCards st now =
     filter (\<lambda>a. \<not> graduated (heap st a) \<and> (due (heap st a) \<le> now \<or> state (heap st a) = New))
       (map snd (cards st))"

text \<open>The comparator handed to \<open>Array.prototype.sort\<close>.\<close>

definition queue_cmp :: "Card \<Rightarrow> Card \<Rightarrow> real" where
  "queue_cmp a b =
     (if state a = New \<and> state b \<noteq> New then - 1
      else if state b = New \<and> state a \<noteq> New then 1
      else if state a = New \<and> state b = New then commonality b - commonality a
      else real_of_int (due a - due b))"

text \<open>
  \<open>Array.prototype.sort\<close> is a stable sort: insertion from the right, an element placed
  before the first one it does not follow.
\<close>

fun insert_by :: "('a \<Rightarrow> 'a \<Rightarrow> real) \<Rightarrow> 'a \<Rightarrow> 'a list \<Rightarrow> 'a list" where
  "insert_by cmp x [] = [x]"
| "insert_by cmp x (y # ys) =
     (if cmp x y \<le> 0 then x # y # ys else y # insert_by cmp x ys)"

fun sort_by :: "('a \<Rightarrow> 'a \<Rightarrow> real) \<Rightarrow> 'a list \<Rightarrow> 'a list" where
  "sort_by cmp [] = []"
| "sort_by cmp (x # xs) = insert_by cmp x (sort_by cmp xs)"

definition buildSessionQueue :: "srs \<Rightarrow> nat option \<Rightarrow> int \<Rightarrow> srs \<times> nat list" where
  "buildSessionQueue st maxCards now =
     (let m = (case maxCards of None \<Rightarrow> 20 | Some n \<Rightarrow> n);
          dueCards = getDueCards st now;
          sorted = sort_by (\<lambda>a b. queue_cmp (heap st a) (heap st b)) dueCards;
          q = take m sorted
      in (st\<lparr>sessionQueue := q\<rparr>, q))"

text \<open>\<open>Array.prototype.findIndex\<close>: the first index that satisfies the test, or -1.\<close>

fun findIndex :: "('a \<Rightarrow> bool) \<Rightarrow> 'a list \<Rightarrow> int" where
  "findIndex P [] = - 1"
| "findIndex P (x # xs) =
     (if P x then 0 else (let i = findIndex P xs in if i < 0 then - 1 else i + 1))"

definition getNextCard :: "srs \<Rightarrow> int \<Rightarrow> srs \<times> nat option" where
  "getNextCard st now =
     (let st1 = (if sessionQueue st = [] then fst (buildSessionQueue st None now) else st)
      in
      if sessionQueue st1 = [] then (st1, None)
      else
        let q = sessionQueue st1;
            q' = (if truthy (lastPattern st1) then
                    let idx = findIndex
                                (\<lambda>c. Some (pos_pattern (heap st1 c)) \<noteq> lastPattern st1) q
                    in if idx > 0
                       then (q ! nat idx) # (take (nat idx) q @ drop (nat idx + 1) q)
                       else q
                  else q)
        in (st1\<lparr>sessionQueue := tl q'\<rparr>, Some (hd q')))"

subsection \<open>Reset\<close>

text \<open>
  \<open>resetCard\<close> stores a new object under the key; the old object stays in the heap, where
  the session queue may still refer to it. The guard of line 595 is the lookup of
  \<open>processReview\<close>: for an inherited name it finds the built-in, whose \<open>pos_pattern\<close>,
  \<open>commonality\<close> and \<open>unit\<close> read \<open>undefined\<close>, and the assignment of line 597 adds an own
  entry; for \<open>__proto__\<close> the assignment replaces the prototype of \<open>cards\<close> instead. The
  result is \<open>None\<close> where the model does not follow the lookup.
\<close>

definition resetCard :: "srs \<Rightarrow> string \<Rightarrow> int \<Rightarrow> srs option" where
  "resetCard st cardId now =
     (case lookup_card st cardId of
        Absent \<Rightarrow> Some st
      | Unknown \<Rightarrow> None
      | Inherited \<Rightarrow>
          if cardId = ''__proto__'' then Some (st\<lparr>prototype_touched := True\<rparr>)
          else
            let fresh = createCard cardId
                          \<lparr>sd_pos_pattern = None, sd_commonality = None, sd_unit = None\<rparr> now;
                r = next_ref st
            in Some (st\<lparr>heap := (heap st)(r := fresh),
                        next_ref := r + 1,
                        cards := cards st @ [(cardId, r)]\<rparr>)
      | OwnCard a \<Rightarrow>
          let oldData = heap st a;
              fresh = createCard cardId
                        \<lparr>sd_pos_pattern = Some (pos_pattern oldData),
                         sd_commonality = Some (commonality oldData),
                         sd_unit = Some (unit_no oldData)\<rparr> now;
              r = next_ref st
          in Some (st\<lparr>heap := (heap st)(r := fresh),
                      next_ref := r + 1,
                      cards := map (\<lambda>(k, b). if k = cardId then (k, r) else (k, b)) (cards st)\<rparr>))"

subsection \<open>Well-formed stores and pattern-group predicates\<close>

text \<open>
  The keys of the object \<open>cards\<close> are pairwise different, and every card is stored under
  its own id (\<open>createCard\<close> and \<open>resetCard\<close> keep it so).
\<close>

definition wf_cards :: "srs \<Rightarrow> bool" where
  "wf_cards st =
     (distinct (map fst (cards st)) \<and>
      list_all (\<lambda>(k, a). card_id (heap st a) = k) (cards st))"

text \<open>A pattern group has an active member: a card of the group that is not graduated.\<close>

definition has_active :: "srs \<Rightarrow> string \<Rightarrow> bool" where
  "has_active st g =
     list_ex (\<lambda>(k, a). in_pattern_group st (Some g) k \<and> \<not> graduated (heap st a)) (cards st)"

text \<open>The ids of the cards of a pattern group that the metadata marks canonical.\<close>

definition canonicals :: "srs \<Rightarrow> string \<Rightarrow> string list" where
  "canonicals st g =
     filter (\<lambda>k. case drillMeta st k of
                   None \<Rightarrow> False
                 | Some m \<Rightarrow> pattern_group m = Some g \<and> is_canonical m)
       (map fst (cards st))"

subsection \<open>An example store\<close>

text \<open>
  Three drills of one pattern group \<open>g\<close>: \<open>a\<close> is canonical and new, with one error on
  record; \<open>b\<close> was graded Good at time 0 and is in its second learning step, due ten
  minutes later; \<open>c\<close> has graduated.
\<close>

definition demo_card :: "string \<Rightarrow> string \<Rightarrow> Card" where
  "demo_card i pat =
     createCard i \<lparr>sd_pos_pattern = Some pat, sd_commonality = None, sd_unit = None\<rparr> 0"

definition demo :: srs where
  "demo =
    \<lparr> params = default_params,
      zone = utc_zone,
      drillMeta = [''a'' \<mapsto> \<lparr>pattern_group = Some ''g'', is_canonical = True\<rparr>,
                   ''b'' \<mapsto> \<lparr>pattern_group = Some ''g'', is_canonical = False\<rparr>,
                   ''c'' \<mapsto> \<lparr>pattern_group = Some ''g'', is_canonical = False\<rparr>],
      heap = (\<lambda>_. demo_card [] [])
        (0 := (demo_card ''a'' [])
                \<lparr>error_history := [\<lparr>err_type = ''grammar'', timestamp = 0\<rparr>]\<rparr>,
         1 := (demo_card ''b'' ''NV'')
                \<lparr>state := Learning, learning_step := 1, reps := 1, last_review := Some 0,
                  due := 600000\<rparr>,
         2 := (demo_card ''c'' ''NV'')
                \<lparr>state := Review, stability := 20, difficulty := 5, due := 2000000000,
                  graduated := True, graduation_date := Some 0\<rparr>),
      next_ref = 3,
      cards = [(''a'', 0), (''b'', 1), (''c'', 2)],
      sessionQueue = [],
      lastPattern = None,
      sessionStats = \<lparr>reviewed = 0, correct = 0, incorrect = 0\<rparr>,
      prototype_touched = False \<rparr>"

subsection \<open>The range of the difficulty\<close>

text \<open>
  Every stored card has the difficulty 0 of a card that never entered Review, or one in
  [1, 10].
\<close>

definition difficulty_ok :: "srs \<Rightarrow> bool" where
  "difficulty_ok st =
     list_all (\<lambda>(k, a). difficulty (heap st a) = 0 \<or>
                         (1 \<le> difficulty (heap st a) \<and> difficulty (heap st a) \<le> 10))
       (cards st)"

subsection \<open>The session queue as the specification words it\<close>

text \<open>A card is eligible: not graduated, and due or new.\<close>

definition eligible :: "Card \<Rightarrow> int \<Rightarrow> bool" where
  "eligible c now = (\<not> graduated c \<and> (due c \<le> now \<or> state c = New))"

text \<open>
  The order of the queue: a new card never follows another card that is not new, new
  cards come by descending commonality and the other cards by ascending due date.
\<close>

definition queue_order :: "Card \<Rightarrow> Card \<Rightarrow> bool" where
  "queue_order a b =
     ((state b = New \<longrightarrow> state a = New) \<and>
      (state a = New \<and> state b = New \<longrightarrow> commonality a \<ge> commonality b) \<and>
      (state a \<noteq> New \<and> state b \<noteq> New \<longrightarrow> due a \<le> due b))"

text \<open>
  An overdue Review card stored first, then two new cards of commonality 0.3 and 0.8.
\<close>

definition queue_demo :: srs where
  "queue_demo =
     demo\<lparr>heap := (heap demo)
        (0 := (demo_card ''a'' [])\<lparr>state := Review, due := 500\<rparr>,
         1 := (demo_card ''b'' [])\<lparr>commonality := 0.3\<rparr>,
         2 := (demo_card ''c'' [])\<lparr>commonality := 0.8\<rparr>)\<rparr>"

text \<open>
  The store after a restart that follows a canonical swap: \<open>a\<close> has graduated, and the
  metadata, read again from the drills, marks it canonical.
\<close>

definition lapsed_demo :: srs where
  "lapsed_demo =
     demo\<lparr>heap := (heap demo)
        (0 := (heap demo 0)
                \<lparr>state := Review, stability := 20, difficulty := 5, reps := 9,
                  last_review := Some 0, graduated := True, graduation_date := Some 0\<rparr>)\<rparr>"

text \<open>
  A store in which the next Good on the canonical card \<open>a\<close> meets the graduation
  thresholds: a streak of 4, the last learning step, and a graduating interval of 16 days.
\<close>

definition swap_demo :: srs where
  "swap_demo =
     demo\<lparr>params := default_params\<lparr>graduatingInterval := 16\<rparr>,
          heap := (heap demo)
            (0 := (heap demo 0)\<lparr>state := Learning, learning_step := 1, consecutive_correct := 4\<rparr>)\<rparr>"

text \<open>The example store on a host in America/New_York.\<close>

definition dst_demo :: srs where
  "dst_demo = demo\<lparr>zone := new_york_fall_2026\<rparr>"

section \<open>Auxiliary facts\<close>

subsection \<open>The shuffle permutes\<close>

lemma mset_shuffle_loop: "i < length a \<Longrightarrow> mset (shuffle_loop i rs a) = mset a"
proof (induction i arbitrary: rs a)
  case 0
  then show ?case by simp
next
  case (Suc i)
  define j where "j = (case rs of [] \<Rightarrow> 0 | r # _ \<Rightarrow> r mod (Suc i + 1))"
  have "r mod (Suc i + 1) < length a" for r
  proof -
    have "r mod (Suc i + 1) < Suc i + 1" by simp
    also have "\<dots> \<le> length a" using Suc.prems by simp
    finally show ?thesis .
  qed
  then have j: "j < length a" using Suc.prems by (auto simp: j_def split: list.splits)
  have "mset (a[Suc i := a ! j, j := a ! Suc i]) = mset a"
    using mset_swap[of j a "Suc i"] Suc.prems j by simp
  moreover have "i < length (a[Suc i := a ! j, j := a ! Suc i])" using Suc.prems by simp
  ultimately show ?case using Suc.IH[of "a[Suc i := a ! j, j := a ! Suc i]" "tl rs"]
    by (simp add: j_def Let_def)
qed

lemma mset_shuffle: "mset (shuffle xs rs) = mset xs"
  by (cases xs) (simp_all add: shuffle_def mset_shuffle_loop)

lemma set_shuffle: "set (shuffle xs rs) = set xs"
  using mset_shuffle[of xs rs] by (metis set_mset_mset)

lemma length_shuffle: "length (shuffle xs rs) = length xs"
  using mset_shuffle[of xs rs] by (metis size_mset)

lemma hd_shuffle_in: "xs \<noteq> [] \<Longrightarrow> hd (shuffle xs rs) \<in> set xs"
  by (metis hd_in_set length_0_conv length_shuffle set_shuffle)

subsection \<open>Frames of the state updates\<close>

lemma heap_upd_card [simp]: "heap (upd_card a f st) = (heap st)(a := f (heap st a))"
  and drillMeta_upd_card [simp]: "drillMeta (upd_card a f st) = drillMeta st"
  and cards_upd_card [simp]: "cards (upd_card a f st) = cards st"
  and params_upd_card [simp]: "params (upd_card a f st) = params st"
  and queue_upd_card [simp]: "sessionQueue (upd_card a f st) = sessionQueue st"
  and zone_upd_card [simp]: "zone (upd_card a f st) = zone st"
  by (simp_all add: upd_card_def)

lemma heap_commit_review [simp]: "heap (commit_review st a c grade) = (heap st)(a := c)"
  and drillMeta_commit_review [simp]: "drillMeta (commit_review st a c grade) = drillMeta st"
  and cards_commit_review [simp]: "cards (commit_review st a c grade) = cards st"
  and params_commit_review [simp]: "params (commit_review st a c grade) = params st"
  and zone_commit_review [simp]: "zone (commit_review st a c grade) = zone st"
  by (simp_all add: commit_review_def)

lemma getSiblingCards_upd_card [simp]:
  "getSiblingCards (upd_card a f st) g = getSiblingCards st g"
  by (simp add: getSiblingCards_def in_pattern_group_def)

lemma getSiblingCards_commit_review [simp]:
  "getSiblingCards (commit_review st a c grade) g = getSiblingCards st g"
  by (simp add: getSiblingCards_def in_pattern_group_def)

subsection \<open>Case analysis of the graduation and reactivation checks\<close>

lemma checkGraduation_cases [consumes 0, case_names same plain swap raise shadow]:
  obtains
    (same) "checkGraduation st a grade now rs = (st, False)"
  | (plain) meta s where
      "drillMeta st (card_id (heap st a)) = Some meta" "\<not> is_canonical meta"
      "\<not> graduated (heap st a)"
      "s \<in> set (getSiblingCards st (pattern_group meta))" "\<not> graduated (heap st s)"
      "card_id (heap st s) \<noteq> card_id (heap st a)"
      "checkGraduation st a grade now rs = (upd_card a (graduate now) st, False)"
  | (swap) meta nc mn where
      "drillMeta st (card_id (heap st a)) = Some meta" "is_canonical meta"
      "\<not> graduated (heap st a)"
      "nc \<in> set (getSiblingCards st (pattern_group meta))" "graduated (heap st nc)"
      "card_id (heap st nc) \<noteq> card_id (heap st a)"
      "drillMeta st (card_id (heap st nc)) = Some mn"
      "checkGraduation st a grade now rs =
         ((upd_card nc (promote now) (upd_card a (graduate now) st))
            \<lparr>drillMeta := (drillMeta st)
               (card_id (heap st a) \<mapsto> meta\<lparr>is_canonical := False\<rparr>,
                card_id (heap st nc) \<mapsto> mn\<lparr>is_canonical := True\<rparr>)\<rparr>, False)"
  | (raise) meta nc where
      "drillMeta st (card_id (heap st a)) = Some meta" "is_canonical meta"
      "\<not> graduated (heap st a)"
      "nc \<in> set (getSiblingCards st (pattern_group meta))" "graduated (heap st nc)"
      "card_id (heap st nc) \<noteq> card_id (heap st a)"
      "drillMeta st (card_id (heap st nc)) = None"
      "checkGraduation st a grade now rs =
         ((upd_card nc (promote now) (upd_card a (graduate now) st))
            \<lparr>drillMeta := (drillMeta st)
               (card_id (heap st a) \<mapsto> meta\<lparr>is_canonical := False\<rparr>)\<rparr>, True)"
  | (shadow) meta nc where
      "drillMeta st (card_id (heap st a)) = Some meta" "is_canonical meta"
      "\<not> graduated (heap st a)"
      "nc \<in> set (getSiblingCards st (pattern_group meta))" "graduated (heap st nc)"
      "card_id (heap st nc) \<noteq> card_id (heap st a)"
      "drillMeta st (card_id (heap st nc)) = None"
      "checkGraduation st a grade now rs =
         ((upd_card nc (promote now) (upd_card a (graduate now) st))
            \<lparr>drillMeta := (drillMeta st)
               (card_id (heap st a) \<mapsto> meta\<lparr>is_canonical := False\<rparr>),
             prototype_touched := True\<rparr>, False)"
proof (cases "checkGraduation st a grade now rs = (st, False)")
  case True
  then show ?thesis by (rule same)
next
  case ne: False
  have g: "\<not> rating_num grade < rating_num Good" "\<not> graduated (heap st a)"
    using ne by (auto simp: checkGraduation_def split: if_splits)
  obtain meta where m: "drillMeta st (card_id (heap st a)) = Some meta"
    using ne g by (cases "drillMeta st (card_id (heap st a))") (auto simp: checkGraduation_def)
  have cond: "consecutive_correct (heap st a) \<ge> graduationConsecutive (params st) \<and>
      scheduled_days (heap st a) \<ge> real (graduationMinInterval (params st))"
    using ne g m by (auto simp: checkGraduation_def split: if_splits)
  define sib where "sib = getSiblingCards st (pattern_group meta)"
  define gs where "gs = filter (\<lambda>s. graduated (heap st s) \<and> card_id (heap st s) \<noteq> card_id (heap st a)) sib"
  define acs where "acs = filter (\<lambda>s. \<not> graduated (heap st s) \<and> card_id (heap st s) \<noteq> card_id (heap st a)) sib"
  show ?thesis
  proof (cases "is_canonical meta")
    case False
    have "acs \<noteq> []" using ne g m cond False
      by (auto simp: checkGraduation_def acs_def sib_def split: if_splits)
    then obtain s where s: "s \<in> set acs" by (cases acs) auto
    have "checkGraduation st a grade now rs = (upd_card a (graduate now) st, False)"
      using g m cond False \<open>acs \<noteq> []\<close>
      by (simp add: checkGraduation_def acs_def sib_def)
    with s show ?thesis using plain[of meta s] m False g
      by (auto simp: acs_def sib_def)
  next
    case True
    have ne_gs: "gs \<noteq> []" using ne g m cond True
      by (auto simp: checkGraduation_def gs_def sib_def split: if_splits)
    define nc where "nc = hd (shuffle gs rs)"
    have "nc \<in> set gs" unfolding nc_def using ne_gs by (rule hd_shuffle_in)
    then have nc: "nc \<in> set sib" "graduated (heap st nc)"
      "card_id (heap st nc) \<noteq> card_id (heap st a)"
      by (auto simp: gs_def)
    then have nca: "nc \<noteq> a" by auto
    show ?thesis
    proof (cases "drillMeta st (card_id (heap st nc))")
      case None
      show ?thesis
      proof (cases "card_id (heap st nc) \<in> set object_prototype_names")
        case False
        have "checkGraduation st a grade now rs =
           ((upd_card nc (promote now) (upd_card a (graduate now) st))
              \<lparr>drillMeta := (drillMeta st)
                 (card_id (heap st a) \<mapsto> meta\<lparr>is_canonical := False\<rparr>)\<rparr>, True)"
          using g m cond True ne_gs nca nc(3) None False
          by (simp add: checkGraduation_def set_canonical_def Let_def upd_card_def
              graduate_def promote_def flip: gs_def sib_def nc_def)
        then show ?thesis using raise[of meta nc] m True g nc None by (simp add: sib_def)
      next
        case inh: True
        have "checkGraduation st a grade now rs =
           ((upd_card nc (promote now) (upd_card a (graduate now) st))
              \<lparr>drillMeta := (drillMeta st)
                 (card_id (heap st a) \<mapsto> meta\<lparr>is_canonical := False\<rparr>),
               prototype_touched := True\<rparr>, False)"
          using g m cond True ne_gs nca nc(3) None inh
          by (simp add: checkGraduation_def set_canonical_def Let_def upd_card_def
              graduate_def promote_def flip: gs_def sib_def nc_def)
        then show ?thesis using shadow[of meta nc] m True g nc None by (simp add: sib_def)
      qed
    next
      case (Some mn)
      have "checkGraduation st a grade now rs =
         ((upd_card nc (promote now) (upd_card a (graduate now) st))
            \<lparr>drillMeta := (drillMeta st)
               (card_id (heap st a) \<mapsto> meta\<lparr>is_canonical := False\<rparr>,
                card_id (heap st nc) \<mapsto> mn\<lparr>is_canonical := True\<rparr>)\<rparr>, False)"
        using g m cond True ne_gs nca nc(3) Some
        by (simp add: checkGraduation_def set_canonical_def Let_def upd_card_def
            graduate_def promote_def flip: gs_def sib_def nc_def)
      then show ?thesis using swap[of meta nc mn] m True g nc Some by (simp add: sib_def)
    qed
  qed
qed

lemma foldl_reactivate:
  "foldl (reactivate now) st xs =
     st\<lparr>heap := (\<lambda>b. if b \<in> set xs then restore now (heap st b) else heap st b)\<rparr>"
proof (induction xs arbitrary: st)
  case Nil
  then show ?case by simp
next
  case (Cons x xs)
  have r: "restore now (restore now c) = restore now c" for c
    by (simp add: restore_def)
  have "foldl (reactivate now) st (x # xs) = foldl (reactivate now) (reactivate now st x) xs"
    by simp
  also have "\<dots> = (reactivate now st x)\<lparr>heap := (\<lambda>b. if b \<in> set xs
        then restore now (heap (reactivate now st x) b) else heap (reactivate now st x) b)\<rparr>"
    by (rule Cons.IH)
  also have "\<dots> = st\<lparr>heap := (\<lambda>b. if b \<in> set (x # xs) then restore now (heap st b) else heap st b)\<rparr>"
    by (auto simp: reactivate_def upd_card_def fun_eq_iff r)
  finally show ?case .
qed

lemma checkReactivation_cases [consumes 0, case_names same react]:
  obtains
    (same) "checkReactivation st cardId now rs = st"
  | (react) meta h where
      "drillMeta st cardId = Some meta" "is_canonical meta" "truthy (pattern_group meta)"
      "card_history st cardId = Some h"
      "count_recent (zone st) h now \<ge> reactivationLapseThreshold (params st)"
      "checkReactivation st cardId now rs =
         foldl (reactivate now) st
           (take 3 (shuffle (getGraduatedSiblings st (pattern_group meta)) rs))"
  by (cases "checkReactivation st cardId now rs = st")
     (auto simp: checkReactivation_def Let_def split: option.splits if_splits)

lemma lookup_card_own [simp]:
  "map_of (cards st) cardId = Some a \<Longrightarrow> lookup_card st cardId = OwnCard a"
  by (simp add: lookup_card_def)

lemma card_history_own [simp]:
  "map_of (cards st) cardId = Some a \<Longrightarrow>
   card_history st cardId = Some (error_history (heap st a))"
  by (simp add: card_history_def)

text \<open>A review that finds no own card leaves the store as it is, or runs the reactivation check.\<close>

lemma processReview_not_own:
  assumes "map_of (cards st) cardId = None"
  shows "fst (processReview st cardId grade errorInfo now rs) = st \<or>
         fst (processReview st cardId grade errorInfo now rs) = st\<lparr>prototype_touched := True\<rparr> \<or>
         fst (processReview st cardId grade errorInfo now rs) =
           (checkReactivation
              (st\<lparr>lastPattern := None, sessionStats := update_stats (sessionStats st) grade\<rparr>)
              cardId now rs)\<lparr>prototype_touched := True\<rparr>"
  using assms
  by (cases "lookup_card st cardId")
     (auto simp: processReview_def builtin_review_def lookup_card_def Let_def split: if_splits)

lemma processReview_fst:
  "map_of (cards st) cardId = Some a \<Longrightarrow>
   fst (processReview st cardId grade errorInfo now rs) =
     (let c = fst (review_card (params st) (zone st) (heap st a) grade errorInfo now);
          g = checkGraduation (commit_review st a c grade) a grade now rs
      in if snd g then fst g
         else if grade = Again then checkReactivation (fst g) cardId now rs else fst g)"
  by (simp add: processReview_def Let_def split: prod.splits)

lemma checkGraduation_self:
  "\<exists>G D. heap (fst (checkGraduation st a grade now rs)) a =
          (heap st a)\<lparr>graduated := G, graduation_date := D\<rparr>"
proof (cases rule: checkGraduation_cases[of st a grade now rs])
  case same
  have "heap st a = (heap st a)\<lparr>graduated := graduated (heap st a), graduation_date := graduation_date (heap st a)\<rparr>"
    by simp
  with same show ?thesis by (metis fst_conv)
next
  case (plain meta s)
  then show ?thesis by (auto simp: graduate_def)
next
  case (swap meta nc mn)
  then have "nc \<noteq> a" by auto
  with swap(8) show ?thesis by (auto simp: graduate_def)
next
  case (raise meta nc)
  then have "nc \<noteq> a" by auto
  with raise(8) show ?thesis by (auto simp: graduate_def)
next
  case (shadow meta nc)
  then have "nc \<noteq> a" by auto
  with shadow(8) show ?thesis by (auto simp: graduate_def)
qed

lemma checkGraduation_difficulty:
  "difficulty (heap (fst (checkGraduation st a grade now rs)) b) = difficulty (heap st b)"
  by (cases rule: checkGraduation_cases[of st a grade now rs])
     (auto simp: graduate_def promote_def)

lemma checkReactivation_difficulty:
  "difficulty (heap (checkReactivation st cardId now rs) b) = difficulty (heap st b)"
  by (cases rule: checkReactivation_cases[of st cardId now rs])
     (auto simp: foldl_reactivate restore_def)

subsection \<open>The card under review\<close>

lemma track_error_fields [simp]:
  "card_id (track_error c e now) = card_id c"
  "graduated (track_error c e now) = graduated c"
  "state (track_error c e now) = state c"
  "learning_step (track_error c e now) = learning_step c"
  "difficulty (track_error c e now) = difficulty c"
  "stability (track_error c e now) = stability c"
  "pos_pattern (track_error c e now) = pos_pattern c"
  by (simp_all add: track_error_def Let_def split: option.splits)

lemma review_card_frame:
  "card_id (fst (review_card p z c grade e now)) = card_id c"
  "graduated (fst (review_card p z c grade e now)) = graduated c"
  "pos_pattern (fst (review_card p z c grade e now)) = pos_pattern c"
  "error_history (fst (review_card p z c grade e now)) = error_history (track_error c e now)"
  by (simp_all add: review_card_def Let_def learning_branch_def review_branch_def
      set_due_def update_streak_def split: prod.splits if_splits)

lemma review_card_learning:
  assumes "state c \<noteq> Review" and "grade = Good \<or> grade = Hard"
  shows "let steps = (if state c = Relearning then relearningSteps p else learningSteps p);
             k = learning_step c + 1;
             c' = fst (review_card p z c grade e now)
         in if k \<ge> length steps
            then state c' = Review \<and> stability c' = initStability p grade \<and>
                 difficulty c' = initDifficulty p grade \<and>
                 due c' = add_days z now (if grade = Hard then 1 else int (graduatingInterval p))
            else state c' = (if state c = New then Learning else state c) \<and>
                 learning_step c' = k \<and>
                 due c' = (if steps ! k > 0 then add_minutes z now (int (steps ! k))
                           else add_days z now 0)"
proof -
  have s: "state c = New \<or> state c = Learning \<or> state c = Relearning"
    using assms(1) by (cases "state c") auto
  show ?thesis
    using s assms(2)
    by (auto simp: review_card_def Let_def learning_branch_def step_at_def
        set_due_def update_streak_def)
qed

lemma review_card_difficulty:
  "difficulty (fst (review_card p z c grade e now)) = difficulty c \<or>
   (1 \<le> difficulty (fst (review_card p z c grade e now)) \<and>
    difficulty (fst (review_card p z c grade e now)) \<le> 10)"
  by (simp add: review_card_def Let_def learning_branch_def review_branch_def
      set_due_def update_streak_def initDifficulty_def nextDifficulty_def)






lemma processReview_heap_self:
  assumes "map_of (cards st) cardId = Some a"
  shows "\<exists>G D. heap (fst (processReview st cardId grade errorInfo now rs)) a =
           (fst (review_card (params st) (zone st) (heap st a) grade errorInfo now))
             \<lparr>graduated := G, graduation_date := D\<rparr> \<or>
         (grade = Again \<and>
          heap (fst (processReview st cardId grade errorInfo now rs)) a =
            restore now ((fst (review_card (params st) (zone st) (heap st a) grade errorInfo now))
             \<lparr>graduated := G, graduation_date := D\<rparr>))"
proof -
  define c where "c = fst (review_card (params st) (zone st) (heap st a) grade errorInfo now)"
  define st1 where "st1 = commit_review st a c grade"
  obtain G D where gd: "heap (fst (checkGraduation st1 a grade now rs)) a =
      (heap st1 a)\<lparr>graduated := G, graduation_date := D\<rparr>"
    using checkGraduation_self[of st1 a grade now rs] by blast
  have h1: "heap st1 a = c" by (simp add: st1_def)
  define st2 where "st2 = fst (checkGraduation st1 a grade now rs)"
  have r: "heap (checkReactivation st2 cardId now rs) a = heap st2 a \<or>
        heap (checkReactivation st2 cardId now rs) a = restore now (heap st2 a)"
    by (cases rule: checkReactivation_cases[of st2 cardId now rs])
       (auto simp: foldl_reactivate)
  define S where "S = fst (processReview st cardId grade errorInfo now rs)"
  have res: "S = (if snd (checkGraduation st1 a grade now rs) then st2
                  else if grade = Again then checkReactivation st2 cardId now rs else st2)"
    by (simp add: S_def processReview_fst[OF assms] Let_def c_def st1_def st2_def)
  have h2: "heap st2 a = c\<lparr>graduated := G, graduation_date := D\<rparr>"
    using gd h1 by (simp add: st2_def)
  have "heap S a = c\<lparr>graduated := G, graduation_date := D\<rparr> \<or>
        (grade = Again \<and> heap S a = restore now (c\<lparr>graduated := G, graduation_date := D\<rparr>))"
  proof (cases "\<not> snd (checkGraduation st1 a grade now rs) \<and> grade = Again")
    case True
    then have "S = checkReactivation st2 cardId now rs" using res by auto
    with r h2 True show ?thesis by auto
  next
    case False
    then have "S = st2" using res by auto
    with h2 show ?thesis by simp
  qed
  then show ?thesis unfolding S_def c_def by blast
qed

lemma processReview_difficulty_step:
  "difficulty (heap (fst (processReview st cardId grade errorInfo now rs)) b) =
     difficulty (heap st b) \<or>
   (1 \<le> difficulty (heap (fst (processReview st cardId grade errorInfo now rs)) b) \<and>
    difficulty (heap (fst (processReview st cardId grade errorInfo now rs)) b) \<le> 10)"
proof (cases "map_of (cards st) cardId")
  case None
  show ?thesis
    using processReview_not_own[OF None, of grade errorInfo now rs]
    by (auto simp: checkReactivation_difficulty)
next
  case (Some a)
  define c where "c = fst (review_card (params st) (zone st) (heap st a) grade errorInfo now)"
  define S where "S = fst (processReview st cardId grade errorInfo now rs)"
  have "difficulty (heap S b) = difficulty (heap (commit_review st a c grade) b)"
    unfolding S_def processReview_fst[OF Some]
    by (simp add: Let_def checkGraduation_difficulty checkReactivation_difficulty
        flip: c_def)
  moreover have "difficulty c = difficulty (heap st a) \<or> (1 \<le> difficulty c \<and> difficulty c \<le> 10)"
    unfolding c_def by (rule review_card_difficulty)
  ultimately show ?thesis unfolding S_def by (cases "b = a") auto
qed

lemma cards_checkGraduation [simp]:
  "cards (fst (checkGraduation st a grade now rs)) = cards st"
  by (cases rule: checkGraduation_cases[of st a grade now rs]) auto

lemma cards_checkReactivation [simp]:
  "cards (checkReactivation st cardId now rs) = cards st"
  by (cases rule: checkReactivation_cases[of st cardId now rs]) (auto simp: foldl_reactivate)

lemma cards_processReview [simp]:
  "cards (fst (processReview st cardId grade errorInfo now rs)) = cards st"
proof (cases "map_of (cards st) cardId")
  case None
  show ?thesis
    using processReview_not_own[OF None, of grade errorInfo now rs] by auto
next
  case (Some a)
  show ?thesis unfolding processReview_fst[OF Some] by (simp add: Let_def)
qed

lemma difficulty_ok_step:
  assumes "difficulty_ok st"
  shows "difficulty_ok (fst (processReview st cardId grade errorInfo now rs))"
proof -
  have "difficulty (heap (fst (processReview st cardId grade errorInfo now rs)) a) = 0 \<or>
        (1 \<le> difficulty (heap (fst (processReview st cardId grade errorInfo now rs)) a) \<and>
         difficulty (heap (fst (processReview st cardId grade errorInfo now rs)) a) \<le> 10)"
    if ka: "(k, a) \<in> set (cards st)" for k a
  proof -
    have "difficulty (heap st a) = 0 \<or> (1 \<le> difficulty (heap st a) \<and> difficulty (heap st a) \<le> 10)"
      using assms ka by (auto simp: difficulty_ok_def list_all_iff)
    with processReview_difficulty_step[of st cardId grade errorInfo now rs a]
    show ?thesis by auto
  qed
  then show ?thesis by (auto simp: difficulty_ok_def list_all_iff)
qed

lemma difficulty_ok_run: "difficulty_ok st \<Longrightarrow> difficulty_ok (run_reviews st evs)"
proof (induction evs arbitrary: st)
  case Nil
  then show ?case by simp
next
  case (Cons ev evs)
  obtain cardId grade errorInfo now rs where ev: "ev = (cardId, grade, errorInfo, now, rs)"
    by (cases ev) auto
  show ?case using Cons.IH[OF difficulty_ok_step[OF Cons.prems]] by (simp add: ev)
qed

subsection \<open>The queue: search and stable sort\<close>

lemma findIndex_takeWhile:
  "findIndex P xs =
     (if \<exists>x\<in>set xs. P x then int (length (takeWhile (\<lambda>x. \<not> P x) xs)) else - 1)"
  by (induction xs) (auto simp: Let_def)

lemma mset_insert_by: "mset (insert_by cmp x ys) = add_mset x (mset ys)"
  by (induction ys) auto

lemma mset_sort_by: "mset (sort_by cmp xs) = mset xs"
  by (induction xs) (auto simp: mset_insert_by)

lemma set_insert_by: "set (insert_by cmp x ys) = insert x (set ys)"
  using mset_insert_by[of cmp x ys] by (metis set_mset_add_mset_insert set_mset_mset)

lemma sorted_insert_by:
  assumes total: "\<And>a b. cmp a b \<le> 0 \<or> cmp b a \<le> 0"
    and trans: "\<And>a b c. cmp a b \<le> 0 \<Longrightarrow> cmp b c \<le> 0 \<Longrightarrow> cmp a c \<le> 0"
    and "sorted_wrt (\<lambda>a b. cmp a b \<le> 0) ys"
  shows "sorted_wrt (\<lambda>a b. cmp a b \<le> 0) (insert_by cmp x ys)"
  using assms(3)
proof (induction ys)
  case Nil
  then show ?case by simp
next
  case (Cons y ys)
  show ?case
  proof (cases "cmp x y \<le> 0")
    case True
    then have "\<forall>z\<in>set ys. cmp x z \<le> 0" using Cons.prems trans by auto
    with True Cons.prems show ?thesis by simp
  next
    case False
    then have "cmp y x \<le> 0" using total[of x y] by simp
    with False Cons show ?thesis by (auto simp: set_insert_by)
  qed
qed

lemma sorted_sort_by:
  assumes "\<And>a b. cmp a b \<le> 0 \<or> cmp b a \<le> 0"
    and "\<And>a b c. cmp a b \<le> 0 \<Longrightarrow> cmp b c \<le> 0 \<Longrightarrow> cmp a c \<le> 0"
  shows "sorted_wrt (\<lambda>a b. cmp a b \<le> 0) (sort_by cmp xs)"
  by (induction xs) (simp_all add: sorted_insert_by[OF assms])

lemma queue_cmp_le:
  "queue_cmp a b \<le> 0 \<longleftrightarrow>
     (if state a = New then (state b = New \<longrightarrow> commonality b \<le> commonality a)
      else (state b \<noteq> New \<and> due a \<le> due b))"
  by (simp add: queue_cmp_def)

lemma queue_cmp_total: "queue_cmp a b \<le> 0 \<or> queue_cmp b a \<le> 0"
  unfolding queue_cmp_le by (cases "state a = New"; cases "state b = New") auto

lemma queue_cmp_trans:
  "queue_cmp a b \<le> 0 \<Longrightarrow> queue_cmp b c \<le> 0 \<Longrightarrow> queue_cmp a c \<le> 0"
  unfolding queue_cmp_le
  by (cases "state a = New"; cases "state b = New"; cases "state c = New") auto

lemma queue_cmp_order: "queue_cmp a b \<le> 0 \<Longrightarrow> queue_order a b"
  unfolding queue_cmp_le by (auto simp: queue_order_def split: if_splits)

subsection \<open>Reactivation\<close>

lemma checkGraduation_Again [simp]: "checkGraduation st a Again now rs = (st, False)"
  by (simp add: checkGraduation_def)

lemma graduated_commit_review:
  "graduated (heap (commit_review st a (fst (review_card p z (heap st a) grade e now)) grade) b) =
   graduated (heap st b)"
  by (simp add: review_card_frame)

lemma getGraduatedSiblings_commit_review:
  "getGraduatedSiblings (commit_review st a (fst (review_card p z (heap st a) grade e now)) grade) g =
   getGraduatedSiblings st g"
  unfolding getGraduatedSiblings_def getSiblingCards_commit_review
  by (rule filter_cong) (simp_all add: review_card_frame)

lemma recentLapses_cong:
  "error_history c = error_history c' \<Longrightarrow> recentLapses z c now = recentLapses z c' now"
  by (simp add: recentLapses_def)

lemma reactivation_happens:
  assumes "map_of (cards st) cardId = Some a"
    and "drillMeta st cardId = Some meta" and "is_canonical meta"
    and "truthy (pattern_group meta)"
    and "reactivationLapseThreshold (params st) \<le>
           recentLapses (zone st) (track_error (heap st a) errorInfo now) now"
  shows "heap (fst (processReview st cardId Again errorInfo now rs)) =
           (\<lambda>b. if b \<in> set (take 3 (shuffle (getGraduatedSiblings st (pattern_group meta)) rs))
                then restore now
                       (((heap st)(a := fst (review_card (params st) (zone st) (heap st a) Again errorInfo now))) b)
                else ((heap st)(a := fst (review_card (params st) (zone st) (heap st a) Again errorInfo now))) b)"
proof -
  define c where "c = fst (review_card (params st) (zone st) (heap st a) Again errorInfo now)"
  define st1 where "st1 = commit_review st a c Again"
  have rl: "count_recent (zone st1) (error_history (heap st1 a)) now =
      recentLapses (zone st) (track_error (heap st a) errorInfo now) now"
    by (simp add: recentLapses_def st1_def c_def review_card_frame)
  have m1: "map_of (cards st1) cardId = Some a" using assms(1) by (simp add: st1_def)
  have G: "getGraduatedSiblings st1 (pattern_group meta) = getGraduatedSiblings st (pattern_group meta)"
    unfolding st1_def c_def by (rule getGraduatedSiblings_commit_review)
  have "fst (processReview st cardId Again errorInfo now rs) = checkReactivation st1 cardId now rs"
    by (simp add: processReview_fst[OF assms(1)] Let_def st1_def c_def)
  also have "\<dots> = foldl (reactivate now) st1
      (take 3 (shuffle (getGraduatedSiblings st (pattern_group meta)) rs))"
    using assms(2-5) rl G card_history_own[OF m1]
    by (simp add: checkReactivation_def Let_def) (simp add: st1_def)
  finally show ?thesis
    by (simp add: foldl_reactivate st1_def c_def cong: if_cong)
qed

lemma no_reactivation:
  assumes "map_of (cards st) cardId = Some a"
    and "grade \<noteq> Again \<or> (\<forall>meta. drillMeta st cardId = Some meta \<longrightarrow> \<not> is_canonical meta)"
  shows "\<not> (graduated (heap st b) \<and>
             \<not> graduated (heap (fst (processReview st cardId grade errorInfo now rs)) b) \<and>
             state (heap (fst (processReview st cardId grade errorInfo now rs)) b) = Relearning)"
proof -
  define c where "c = fst (review_card (params st) (zone st) (heap st a) grade errorInfo now)"
  define st1 where "st1 = commit_review st a c grade"
  have g1: "graduated (heap st1 b) = graduated (heap st b)" for b
    unfolding st1_def c_def by (rule graduated_commit_review)
  show ?thesis
  proof (cases "grade = Again")
    case True
    with assms(2) have "checkReactivation st1 cardId now rs = st1"
      by (auto simp: checkReactivation_def st1_def split: option.splits)
    with True have "fst (processReview st cardId grade errorInfo now rs) = st1"
      by (simp add: processReview_fst[OF assms(1)] Let_def st1_def c_def)
    then show ?thesis using g1 by simp
  next
    case False
    then have S: "fst (processReview st cardId grade errorInfo now rs) =
        fst (checkGraduation st1 a grade now rs)"
      by (simp add: processReview_fst[OF assms(1)] Let_def st1_def c_def)
    show ?thesis unfolding S
      by (cases rule: checkGraduation_cases[of st1 a grade now rs])
         (auto simp: g1 graduate_def promote_def split: if_splits)
  qed
qed

subsection \<open>Pattern groups under a review\<close>

lemma has_active_iff:
  "has_active st g \<longleftrightarrow>
     (\<exists>k b. (k, b) \<in> set (cards st) \<and> in_pattern_group st (Some g) k \<and> \<not> graduated (heap st b))"
  by (auto simp: has_active_def list_ex_iff)

lemma wf_cards_id: "wf_cards st \<Longrightarrow> (k, b) \<in> set (cards st) \<Longrightarrow> card_id (heap st b) = k"
  by (auto simp: wf_cards_def list_all_iff)

lemma sibling_iff:
  "s \<in> set (getSiblingCards st pg) \<longleftrightarrow>
     truthy pg \<and> (\<exists>k. (k, s) \<in> set (cards st) \<and> in_pattern_group st pg k)"
  by (force simp: getSiblingCards_def image_iff)

lemma card_id_checkGraduation [simp]:
  "card_id (heap (fst (checkGraduation st a grade now rs)) b) = card_id (heap st b)"
  by (cases rule: checkGraduation_cases[of st a grade now rs])
     (auto simp: graduate_def promote_def)

lemma card_id_checkReactivation [simp]:
  "card_id (heap (checkReactivation st cardId now rs) b) = card_id (heap st b)"
  by (cases rule: checkReactivation_cases[of st cardId now rs])
     (auto simp: foldl_reactivate restore_def)

lemma card_id_processReview [simp]:
  "card_id (heap (fst (processReview st cardId grade errorInfo now rs)) b) = card_id (heap st b)"
proof (cases "map_of (cards st) cardId")
  case None
  show ?thesis
    using processReview_not_own[OF None, of grade errorInfo now rs] by auto
next
  case (Some a)
  show ?thesis unfolding processReview_fst[OF Some]
    by (simp add: Let_def review_card_frame)
qed

lemma wf_cards_processReview:
  "wf_cards st \<Longrightarrow> wf_cards (fst (processReview st cardId grade errorInfo now rs))"
  by (simp add: wf_cards_def)

lemma in_pattern_group_checkGraduation [simp]:
  "in_pattern_group (fst (checkGraduation st a grade now rs)) pg k = in_pattern_group st pg k"
  by (cases rule: checkGraduation_cases[of st a grade now rs])
     (auto simp: in_pattern_group_def)

lemma drillMeta_checkReactivation [simp]:
  "drillMeta (checkReactivation st cardId now rs) = drillMeta st"
  by (cases rule: checkReactivation_cases[of st cardId now rs]) (auto simp: foldl_reactivate)

lemma has_active_checkGraduation:
  assumes wf: "wf_cards st" and a: "(ka, a) \<in> set (cards st)" and act: "has_active st g"
  shows "has_active (fst (checkGraduation st a grade now rs)) g"
proof -
  from act obtain k b where kb: "(k, b) \<in> set (cards st)" "in_pattern_group st (Some g) k"
    "\<not> graduated (heap st b)" unfolding has_active_iff by blast
  have grp: "pattern_group meta = Some g"
    if "b = a" "drillMeta st (card_id (heap st a)) = Some meta" for meta
    using that kb(1,2) wf_cards_id[OF wf kb(1)] by (simp add: in_pattern_group_def)
  show ?thesis
  proof (cases rule: checkGraduation_cases[of st a grade now rs])
    case same
    then show ?thesis using act by simp
  next
    case (plain meta s)
    show ?thesis
    proof (cases "b = a")
      case False
      then show ?thesis unfolding has_active_iff using kb plain(7)
        by (intro exI[of _ k] exI[of _ b]) (simp add: in_pattern_group_def)
    next
      case True
      from plain(4) grp[OF True plain(1)] obtain k' where
        "(k', s) \<in> set (cards st)" "in_pattern_group st (Some g) k'"
        by (auto simp: sibling_iff)
      moreover have "s \<noteq> a" using plain(6) by auto
      ultimately show ?thesis unfolding has_active_iff using plain(5,7)
        by (intro exI[of _ k'] exI[of _ s]) (simp add: in_pattern_group_def)
    qed
  next
    case (swap meta nc mn)
    have S: "heap (fst (checkGraduation st a grade now rs)) =
        (heap st)(a := graduate now (heap st a), nc := promote now (heap st nc))"
      "cards (fst (checkGraduation st a grade now rs)) = cards st"
      using swap(6,8) by (auto simp: fun_eq_iff)
    show ?thesis
    proof (cases "b = a")
      case False
      then show ?thesis unfolding has_active_iff using kb S
        by (intro exI[of _ k] exI[of _ b]) (simp add: promote_def)
    next
      case True
      from swap(4) grp[OF True swap(1)] obtain k' where
        "(k', nc) \<in> set (cards st)" "in_pattern_group st (Some g) k'"
        by (auto simp: sibling_iff)
      then show ?thesis unfolding has_active_iff using S
        by (intro exI[of _ k'] exI[of _ nc]) (simp add: promote_def)
    qed
  next
    case (raise meta nc)
    have S: "heap (fst (checkGraduation st a grade now rs)) =
        (heap st)(a := graduate now (heap st a), nc := promote now (heap st nc))"
      "cards (fst (checkGraduation st a grade now rs)) = cards st"
      using raise(6,8) by (auto simp: fun_eq_iff)
    show ?thesis
    proof (cases "b = a")
      case False
      then show ?thesis unfolding has_active_iff using kb S
        by (intro exI[of _ k] exI[of _ b]) (simp add: promote_def)
    next
      case True
      from raise(4) grp[OF True raise(1)] obtain k' where
        "(k', nc) \<in> set (cards st)" "in_pattern_group st (Some g) k'"
        by (auto simp: sibling_iff)
      then show ?thesis unfolding has_active_iff using S
        by (intro exI[of _ k'] exI[of _ nc]) (simp add: promote_def)
    qed
  next
    case (shadow meta nc)
    have S: "heap (fst (checkGraduation st a grade now rs)) =
        (heap st)(a := graduate now (heap st a), nc := promote now (heap st nc))"
      "cards (fst (checkGraduation st a grade now rs)) = cards st"
      using shadow(6,8) by (auto simp: fun_eq_iff)
    show ?thesis
    proof (cases "b = a")
      case False
      then show ?thesis unfolding has_active_iff using kb S
        by (intro exI[of _ k] exI[of _ b]) (simp add: promote_def)
    next
      case True
      from shadow(4) grp[OF True shadow(1)] obtain k' where
        "(k', nc) \<in> set (cards st)" "in_pattern_group st (Some g) k'"
        by (auto simp: sibling_iff)
      then show ?thesis unfolding has_active_iff using S
        by (intro exI[of _ k'] exI[of _ nc]) (simp add: promote_def)
    qed
  qed
qed

lemma has_active_checkReactivation:
  assumes "has_active st g"
  shows "has_active (checkReactivation st cardId now rs) g"
proof -
  from assms obtain k b where kb: "(k, b) \<in> set (cards st)" "in_pattern_group st (Some g) k"
    "\<not> graduated (heap st b)" unfolding has_active_iff by blast
  have "\<not> graduated (heap (checkReactivation st cardId now rs) b)"
    using kb(3)
    by (cases rule: checkReactivation_cases[of st cardId now rs])
       (auto simp: foldl_reactivate restore_def)
  then show ?thesis unfolding has_active_iff using kb
    by (intro exI[of _ k] exI[of _ b]) (simp add: in_pattern_group_def)
qed

lemma filter_eq_single: "distinct xs \<Longrightarrow> x \<in> set xs \<Longrightarrow> filter (\<lambda>k. k = x) xs = [x]"
  by (induction xs) (auto simp: filter_empty_conv)

lemma filter_length_one_unique:
  assumes "length (filter P xs) = 1" "x \<in> set xs" "P x" "y \<in> set xs" "P y"
  shows "y = x"
proof -
  obtain z where z: "filter P xs = [z]" using assms(1) by (cases "filter P xs") auto
  have "x \<in> set (filter P xs)" "y \<in> set (filter P xs)" using assms by auto
  then show ?thesis unfolding z by simp
qed

lemma canonicals_cong:
  assumes "cards st' = cards st"
    and "\<And>k. k \<in> fst ` set (cards st) \<Longrightarrow>
           (case drillMeta st' k of None \<Rightarrow> False
            | Some m \<Rightarrow> pattern_group m = Some g \<and> is_canonical m) =
           (case drillMeta st k of None \<Rightarrow> False
            | Some m \<Rightarrow> pattern_group m = Some g \<and> is_canonical m)"
  shows "canonicals st' g = canonicals st g"
  unfolding canonicals_def assms(1) by (rule filter_cong) (auto simp: assms(2))

lemma canonicals_checkGraduation:
  assumes wf: "wf_cards st" and a: "(ka, a) \<in> set (cards st)"
    and one: "length (canonicals st g) = 1"
  shows "length (canonicals (fst (checkGraduation st a grade now rs)) g) = 1"
proof (cases rule: checkGraduation_cases[of st a grade now rs])
  case same
  then show ?thesis using one by simp
next
  case (plain meta s)
  then show ?thesis using one by (simp add: canonicals_def)
next
  case (raise meta nc)
  from raise(4) obtain k' where "(k', nc) \<in> set (cards st)"
    "in_pattern_group st (pattern_group meta) k'" by (auto simp: sibling_iff)
  then have "drillMeta st (card_id (heap st nc)) \<noteq> None"
    using wf_cards_id[OF wf] by (auto simp: in_pattern_group_def split: option.splits)
  with raise(7) show ?thesis by simp
next
  case (shadow meta nc)
  from shadow(4) obtain k' where "(k', nc) \<in> set (cards st)"
    "in_pattern_group st (pattern_group meta) k'" by (auto simp: sibling_iff)
  then have "drillMeta st (card_id (heap st nc)) \<noteq> None"
    using wf_cards_id[OF wf] by (auto simp: in_pattern_group_def split: option.splits)
  with shadow(7) show ?thesis by simp
next
  case (swap meta nc mn)
  define keys where "keys = map fst (cards st)"
  define ida where "ida = card_id (heap st a)"
  define idn where "idn = card_id (heap st nc)"
  define S where "S = fst (checkGraduation st a grade now rs)"
  define isC where "isC = (\<lambda>(dm::string \<rightharpoonup> drill_meta) k. case dm k of None \<Rightarrow> False
            | Some (m::drill_meta) \<Rightarrow> pattern_group m = Some g \<and> is_canonical m)"
  have dist: "distinct keys" using wf by (simp add: wf_cards_def keys_def)
  have ida: "ida = ka" "ida \<in> set keys"
    using wf_cards_id[OF wf a] a by (auto simp: ida_def keys_def intro: rev_image_eqI)
  from swap(4) obtain k' where k': "(k', nc) \<in> set (cards st)"
    "in_pattern_group st (pattern_group meta) k'" by (auto simp: sibling_iff)
  have idn: "idn = k'" "idn \<in> set keys"
    using wf_cards_id[OF wf k'(1)] k'(1) by (auto simp: idn_def keys_def intro: rev_image_eqI)
  have pg: "pattern_group mn = pattern_group meta"
    using k'(2) swap(7) idn(1) by (simp add: in_pattern_group_def idn_def)
  have ne: "ida \<noteq> idn" using swap(6) by (simp add: ida_def idn_def)
  have dm': "drillMeta S = (drillMeta st)(ida \<mapsto> meta\<lparr>is_canonical := False\<rparr>,
       idn \<mapsto> mn\<lparr>is_canonical := True\<rparr>)"
    and cards': "cards S = cards st"
    using swap(8) by (simp_all add: S_def ida_def idn_def)
  have can: "canonicals st g = filter (isC (drillMeta st)) keys"
    "canonicals S g = filter (isC (drillMeta S)) keys"
    by (simp_all add: canonicals_def isC_def keys_def cards')
  show ?thesis
  proof (cases "pattern_group meta = Some g")
    case False
    have "isC (drillMeta S) k = isC (drillMeta st) k" for k
      using False pg swap(1,7) by (simp add: dm' isC_def ida_def idn_def)
    then have "isC (drillMeta S) = isC (drillMeta st)" by (simp add: fun_eq_iff)
    then show ?thesis using one by (simp add: can flip: S_def)
  next
    case True
    have ca: "isC (drillMeta st) ida" using swap(1,2) True by (simp add: isC_def ida_def)
    have uniq: "k = ida" if "k \<in> set keys" "isC (drillMeta st) k" for k
      using filter_length_one_unique[OF one[unfolded can(1)] ida(2) ca that] .
    have "isC (drillMeta S) k \<longleftrightarrow> k = idn" if "k \<in> set keys" for k
    proof (cases "k = idn")
      case True
      then show ?thesis using pg \<open>pattern_group meta = Some g\<close> by (simp add: dm' isC_def)
    next
      case False
      show ?thesis
      proof (cases "k = ida")
        case True
        then show ?thesis using ne by (simp add: dm' isC_def)
      next
        case nk: False
        then have "\<not> isC (drillMeta st) k" using uniq[OF that] by blast
        then show ?thesis using False nk by (simp add: dm' isC_def)
      qed
    qed
    then have "filter (isC (drillMeta S)) keys = filter (\<lambda>k. k = idn) keys"
      by (intro filter_cong) auto
    also have "\<dots> = [idn]" using dist idn(2) by (rule filter_eq_single)
    finally show ?thesis by (simp add: can flip: S_def)
  qed
qed

lemma canonicals_checkReactivation [simp]:
  "canonicals (checkReactivation st cardId now rs) g = canonicals st g"
  by (simp add: canonicals_def)

lemma wf_cards_commit_review:
  "wf_cards st \<Longrightarrow> wf_cards (commit_review st a (fst (review_card p z (heap st a) grade e now)) grade)"
  by (auto simp: wf_cards_def list_all_iff review_card_frame)

lemma has_active_commit_review:
  "has_active (commit_review st a (fst (review_card p z (heap st a) grade e now)) grade) g =
   has_active st g"
proof -
  have "graduated (heap (commit_review st a (fst (review_card p z (heap st a) grade e now)) grade) b)
      = graduated (heap st b)" for b
    by (simp add: review_card_frame)
  then show ?thesis by (simp add: has_active_iff in_pattern_group_def del: heap_commit_review)
qed

lemma canonicals_commit_review [simp]:
  "canonicals (commit_review st a c grade) g = canonicals st g"
  by (simp add: canonicals_def)

lemma graduation_step:
  assumes wf: "wf_cards st"
  shows "(has_active st g \<longrightarrow> has_active (fst (processReview st cardId grade errorInfo now rs)) g) \<and>
         (length (canonicals st g) = 1 \<longrightarrow>
          length (canonicals (fst (processReview st cardId grade errorInfo now rs)) g) = 1)"
proof (cases "map_of (cards st) cardId")
  case None
  define st1 where
    "st1 = st\<lparr>lastPattern := None, sessionStats := update_stats (sessionStats st) grade\<rparr>"
  have f: "has_active (x\<lparr>prototype_touched := True\<rparr>) g = has_active x g"
    "canonicals (x\<lparr>prototype_touched := True\<rparr>) g = canonicals x g" for x
    by (simp_all add: has_active_def canonicals_def in_pattern_group_def)
  have f1: "has_active st1 g = has_active st g" "canonicals st1 g = canonicals st g"
    by (simp_all add: st1_def has_active_def canonicals_def in_pattern_group_def)
  show ?thesis
    using processReview_not_own[OF None, of grade errorInfo now rs]
      has_active_checkReactivation[of st1 g cardId now rs]
    by (auto simp: f f1 simp flip: st1_def)
next
  case (Some a)
  define c where "c = fst (review_card (params st) (zone st) (heap st a) grade errorInfo now)"
  define st1 where "st1 = commit_review st a c grade"
  define st2 where "st2 = fst (checkGraduation st1 a grade now rs)"
  define S where "S = fst (processReview st cardId grade errorInfo now rs)"
  have wf1: "wf_cards st1" unfolding st1_def c_def using wf by (rule wf_cards_commit_review)
  have a1: "(cardId, a) \<in> set (cards st1)" using map_of_SomeD[OF Some] by (simp add: st1_def)
  have S: "S = st2 \<or> S = checkReactivation st2 cardId now rs"
    unfolding S_def processReview_fst[OF Some] by (auto simp: Let_def st2_def st1_def c_def)
  have "has_active S g" if "has_active st g"
  proof -
    have "has_active st1 g" using that unfolding st1_def c_def by (simp add: has_active_commit_review)
    then have "has_active st2 g" unfolding st2_def
      by (rule has_active_checkGraduation[OF wf1 a1])
    then show ?thesis using S has_active_checkReactivation by auto
  qed
  moreover have "length (canonicals S g) = 1" if "length (canonicals st g) = 1"
  proof -
    have "length (canonicals st1 g) = 1" using that by (simp add: st1_def)
    then have "length (canonicals st2 g) = 1" unfolding st2_def
      by (rule canonicals_checkGraduation[OF wf1 a1])
    then show ?thesis using S by auto
  qed
  ultimately show ?thesis unfolding S_def by blast
qed

lemma swap_demo_run:
  "canonicals (run_reviews swap_demo [(''a'', Good, None, 1000, [])]) ''g'' = [''c''] \<and>
   graduated (heap (run_reviews swap_demo [(''a'', Good, None, 1000, [])]) 0) \<and>
   \<not> graduated (heap (run_reviews swap_demo [(''a'', Good, None, 1000, [])]) 2)"
  by (simp add: processReview_def review_card_def learning_branch_def set_due_def
      update_streak_def track_error_def step_at_def commit_review_def upd_card_def
      checkGraduation_def set_canonical_def graduate_def promote_def shuffle_def
      getSiblingCards_def in_pattern_group_def canonicals_def
      swap_demo_def demo_def demo_card_def createCard_def default_params_def Let_def)

subsection \<open>Learning steps\<close>

lemma learning_step_advance:
  assumes "map_of (cards st) cardId = Some a"
    and "state (heap st a) \<noteq> Review"
    and "grade = Good \<or> grade = Hard"
  shows "let c = heap st a;
             p = params st;
             steps = (if state c = Relearning then relearningSteps p else learningSteps p);
             k = learning_step c + 1;
             c' = heap (fst (processReview st cardId grade errorInfo now rs)) a
         in if k \<ge> length steps
            then state c' = Review \<and> stability c' = initStability p grade \<and>
                 difficulty c' = initDifficulty p grade \<and>
                 due c' = add_days (zone st) now
                            (if grade = Hard then 1 else int (graduatingInterval p))
            else state c' = (if state c = New then Learning else state c) \<and>
                 learning_step c' = k \<and>
                 due c' = (if steps ! k > 0 then add_minutes (zone st) now (int (steps ! k))
                           else add_days (zone st) now 0)"
proof -
  obtain G D where "heap (fst (processReview st cardId grade errorInfo now rs)) a =
           (fst (review_card (params st) (zone st) (heap st a) grade errorInfo now))
             \<lparr>graduated := G, graduation_date := D\<rparr>"
    using processReview_heap_self[OF assms(1), of grade errorInfo now rs] assms(3) by auto
  then show ?thesis
    using review_card_learning[OF assms(2,3), of "params st" "zone st" errorInfo now]
    by (simp add: Let_def)
qed

subsection \<open>Ids without a card\<close>

lemma absent_card_noop:
  "lookup_card st cardId = Absent \<Longrightarrow>
   processReview st cardId grade errorInfo now rs = (st, ReturnedNull) \<and>
   resetCard st cardId now = Some st"
  by (simp add: processReview_def resetCard_def)

section \<open>Claims\<close>


subsection \<open>C1\<close>

text \<open>
  C1. In a store whose cards are filed under their own ids, over any sequence of
  \<open>processReview\<close> calls a pattern group that has an active (not graduated) member keeps
  one, whatever its size; and a group with exactly one canonical card has exactly one after
  every call, a canonical swap of the graduation check included: the swap moves the mark
  from the reviewed card to the promoted sibling.
\<close>

theorem graduation_invariant:
  assumes "wf_cards st"
  shows "(has_active st g \<longrightarrow> has_active (run_reviews st evs) g) \<and>
         (length (canonicals st g) = 1 \<longrightarrow> length (canonicals (run_reviews st evs) g) = 1)"
  using assms
proof (induction evs arbitrary: st)
  case Nil
  then show ?case by simp
next
  case (Cons ev evs)
  obtain cardId grade errorInfo now rs where ev: "ev = (cardId, grade, errorInfo, now, rs)"
    by (cases ev) auto
  define st' where "st' = fst (processReview st cardId grade errorInfo now rs)"
  have wf': "wf_cards st'" unfolding st'_def using Cons.prems by (rule wf_cards_processReview)
  show ?case
    using graduation_step[OF Cons.prems, of g cardId grade errorInfo now rs] Cons.IH[OF wf']
    by (simp add: ev st'_def)
qed

theorem graduation_invariant_witness:
  "has_active (run_reviews swap_demo [(''a'', Good, None, 1000, [])]) ''g'' \<and>
   length (canonicals (run_reviews swap_demo [(''a'', Good, None, 1000, [])]) ''g'') = 1 \<and>
   canonicals swap_demo ''g'' = [''a''] \<and>
   canonicals (run_reviews swap_demo [(''a'', Good, None, 1000, [])]) ''g'' = [''c'']"
proof -
  have wf: "wf_cards swap_demo"
    by (simp add: wf_cards_def swap_demo_def demo_def demo_card_def createCard_def)
  have act: "has_active swap_demo ''g''"
    by (simp add: has_active_def in_pattern_group_def swap_demo_def demo_def demo_card_def
        createCard_def)
  have can: "canonicals swap_demo ''g'' = [''a'']"
    by (simp add: canonicals_def swap_demo_def demo_def)
  show ?thesis
    using graduation_invariant[OF wf, of "''g''" "[(''a'', Good, None, 1000, [])]"] act can
      swap_demo_run
    by simp
qed

subsection \<open>C2\<close>

text \<open>
  C2. A card in state New, Learning or Relearning graded Good or Hard advances its
  learning step as the claim says, but the due date of the next step is not always
  \<open>steps[learning_step]\<close> minutes after \<open>now\<close>: line 331 moves the local wall-clock minutes,
  and in the hour that the end of daylight saving repeats the local time is read by the
  earlier offset. In America/New_York a new card graded Good at 2026-11-01 06:30 UTC
  (01:30 local, the second time) is due at 05:40 UTC, 50 minutes before \<open>now\<close>, where the
  step is 10 minutes.
\<close>

theorem learning_step_due_before_now:
  "state (heap dst_demo 0) = New \<and>
   state (heap (fst (processReview dst_demo ''a'' Good None 1793514600000 [])) 0) = Learning \<and>
   learning_step (heap (fst (processReview dst_demo ''a'' Good None 1793514600000 [])) 0) = 1 \<and>
   step_at (learningSteps (params dst_demo)) 1 = 10 \<and>
   due (heap (fst (processReview dst_demo ''a'' Good None 1793514600000 [])) 0) =
     1793514600000 - 50 * minute_ms"
proof -
  have m: "map_of (cards dst_demo) ''a'' = Some 0" "state (heap dst_demo 0) = New"
    by (simp_all add: dst_demo_def demo_def demo_card_def createCard_def)
  have z: "add_minutes (zone dst_demo) 1793514600000 10 = 1793514600000 - 50 * minute_ms"
    by (simp add: dst_demo_def new_york_fall_2026_def add_minutes_def UTC_def LocalTime_def
        minute_ms_def)
  show ?thesis
    using learning_step_advance[OF m(1), of Good None 1793514600000 "[]"] m(2) z
    by (simp add: dst_demo_def demo_def demo_card_def createCard_def default_params_def
        step_at_def Let_def)
qed

subsection \<open>C3\<close>

text \<open>
  C3. \<open>buildSessionQueue(max)\<close> returns, and stores as the session queue, the first
  \<open>max\<close> (default 20) entries of a list that holds exactly the eligible cards (not
  graduated, and due or new), in which every new card precedes every other card, new cards
  are in descending commonality order and the other cards in ascending due order.
\<close>

theorem buildSessionQueue_spec:
  "\<exists>full. snd (buildSessionQueue st maxCards now) =
            take (case maxCards of None \<Rightarrow> 20 | Some n \<Rightarrow> n) full \<and>
          sessionQueue (fst (buildSessionQueue st maxCards now)) =
            snd (buildSessionQueue st maxCards now) \<and>
          mset full = mset (filter (\<lambda>a. eligible (heap st a) now) (map snd (cards st))) \<and>
          sorted_wrt (\<lambda>a b. queue_order (heap st a) (heap st b)) full"
proof -
  define cmp where "cmp = (\<lambda>a b. queue_cmp (heap st a) (heap st b))"
  define full where "full = sort_by cmp (getDueCards st now)"
  have "sorted_wrt (\<lambda>a b. cmp a b \<le> 0) full"
    unfolding full_def
    by (rule sorted_sort_by) (auto simp: cmp_def queue_cmp_total intro: queue_cmp_trans)
  then have "sorted_wrt (\<lambda>a b. queue_order (heap st a) (heap st b)) full"
    by (rule sorted_wrt_mono_rel[rotated]) (simp add: cmp_def queue_cmp_order)
  moreover have "mset full = mset (filter (\<lambda>a. eligible (heap st a) now) (map snd (cards st)))"
    by (simp add: full_def mset_sort_by getDueCards_def eligible_def)
  moreover have "snd (buildSessionQueue st maxCards now) =
            take (case maxCards of None \<Rightarrow> 20 | Some n \<Rightarrow> n) full"
    "sessionQueue (fst (buildSessionQueue st maxCards now)) =
            snd (buildSessionQueue st maxCards now)"
    by (simp_all add: buildSessionQueue_def Let_def full_def cmp_def)
  ultimately show ?thesis by blast
qed

theorem buildSessionQueue_spec_witness:
  "snd (buildSessionQueue queue_demo None 1000) = [2, 1, 0] \<and>
   snd (buildSessionQueue queue_demo (Some 2) 1000) = [2, 1]"
proof -
  have "getDueCards queue_demo 1000 = [0, 1, 2]"
    by (simp add: getDueCards_def queue_demo_def demo_def demo_card_def createCard_def)
  moreover have "sort_by (\<lambda>a b. queue_cmp (heap queue_demo a) (heap queue_demo b)) [0, 1, 2]
      = [2, 1, 0]"
    by (simp add: queue_cmp_def queue_demo_def demo_def demo_card_def createCard_def)
  ultimately have "snd (buildSessionQueue queue_demo None 1000) = [2, 1, 0]"
    "snd (buildSessionQueue queue_demo (Some 2) 1000) = [2, 1]"
    by (simp_all add: buildSessionQueue_def Let_def)
  with buildSessionQueue_spec[of queue_demo None 1000] show ?thesis by blast
qed

subsection \<open>C4\<close>

text \<open>
  C4 (as found). The claim that the difficulty of every card lies in [1, 10] at every
  time fails for a freshly created card, whose difficulty is 0, and for a new card after a
  first Good.
\<close>

theorem difficulty_range_counterexample:
  "\<not> (1 \<le> difficulty (createCard ''a'' \<lparr>sd_pos_pattern = None, sd_commonality = None, sd_unit = None\<rparr> 0)) \<and>
   \<not> (1 \<le> difficulty (heap (fst (processReview demo ''a'' Good None 1000 [])) 0))"
  by (simp add: processReview_def review_card_def learning_branch_def set_due_def
      update_streak_def track_error_def step_at_def commit_review_def upd_card_def
      checkGraduation_def demo_def demo_card_def createCard_def default_params_def Let_def)

text \<open>
  C4 (amended). \<open>createCard\<close> gives a card the difficulty 0. \<open>processReview\<close> leaves the
  difficulty of every card as it was or sets it to a value in [1, 10]; so over any sequence
  of reviews every stored difficulty is 0 or lies in [1, 10].
\<close>

theorem difficulty_zero_or_clamped:
  "difficulty (createCard i sentenceData t) = 0 \<and>
   (difficulty (heap (fst (processReview st cardId grade errorInfo now rs)) b) =
      difficulty (heap st b) \<or>
    (1 \<le> difficulty (heap (fst (processReview st cardId grade errorInfo now rs)) b) \<and>
     difficulty (heap (fst (processReview st cardId grade errorInfo now rs)) b) \<le> 10)) \<and>
   (difficulty_ok st \<longrightarrow> difficulty_ok (run_reviews st evs))"
  using processReview_difficulty_step[of st cardId grade errorInfo now rs b]
    difficulty_ok_run[of st evs]
  by (simp add: createCard_def)

theorem difficulty_zero_or_clamped_witness:
  "difficulty_ok demo \<and>
   difficulty_ok (run_reviews demo [(''a'', Again, None, 1000, []), (''a'', Easy, None, 70000, [])])"
  using difficulty_zero_or_clamped[of "[]" "\<lparr>sd_pos_pattern = None, sd_commonality = None, sd_unit = None\<rparr>" 0 demo "[]" Good None 0 "[]" 0
           "[(''a'', Again, None, 1000, []), (''a'', Easy, None, 70000, [])]"]
  by (simp add: difficulty_ok_def demo_def demo_card_def createCard_def)

subsection \<open>C5\<close>




subsection \<open>C6\<close>

text \<open>
  C6. A review graded Again of a canonical card with a pattern group, whose error history
  (with the error of this review) has at least \<open>reactivationLapseThreshold\<close> entries of the
  last 30 days, restores \<open>min 3 n\<close> of the \<open>n\<close> graduated cards of the group: each is
  active again in state Relearning at step 0 with an empty streak, due at \<open>now\<close>, and no
  other card but the reviewed one changes. On another grade, or for a card that is not
  canonical, no graduated card is restored to Relearning.
\<close>

theorem reactivation_on_canonical_lapse:
  assumes "map_of (cards st) cardId = Some a"
  shows "(grade = Again \<and> drillMeta st cardId = Some meta \<and> is_canonical meta \<and>
          truthy (pattern_group meta) \<and>
          reactivationLapseThreshold (params st) \<le>
            recentLapses (zone st) (track_error (heap st a) errorInfo now) now \<longrightarrow>
          (let G = getGraduatedSiblings st (pattern_group meta);
               R = take 3 (shuffle G rs);
               st' = fst (processReview st cardId grade errorInfo now rs)
           in length R = min 3 (length G) \<and>
              set R \<subseteq> set (getSiblingCards st (pattern_group meta)) \<and>
              (\<forall>b\<in>set R. graduated (heap st b) \<and>
                 \<not> graduated (heap st' b) \<and> state (heap st' b) = Relearning \<and>
                 learning_step (heap st' b) = 0 \<and> consecutive_correct (heap st' b) = 0 \<and>
                 due (heap st' b) = now) \<and>
              (\<forall>b. b \<notin> set R \<and> b \<noteq> a \<longrightarrow> heap st' b = heap st b))) \<and>
         (grade \<noteq> Again \<or> (\<forall>m. drillMeta st cardId = Some m \<longrightarrow> \<not> is_canonical m) \<longrightarrow>
          (\<forall>b. \<not> (graduated (heap st b) \<and>
                   \<not> graduated (heap (fst (processReview st cardId grade errorInfo now rs)) b) \<and>
                   state (heap (fst (processReview st cardId grade errorInfo now rs)) b) = Relearning)))"
proof (intro conjI impI)
  assume h: "grade = Again \<and> drillMeta st cardId = Some meta \<and> is_canonical meta \<and>
          truthy (pattern_group meta) \<and>
          reactivationLapseThreshold (params st) \<le>
            recentLapses (zone st) (track_error (heap st a) errorInfo now) now"
  define G where "G = getGraduatedSiblings st (pattern_group meta)"
  define R where "R = take 3 (shuffle G rs)"
  have heap': "heap (fst (processReview st cardId grade errorInfo now rs)) =
           (\<lambda>b. if b \<in> set R
                then restore now
                       (((heap st)(a := fst (review_card (params st) (zone st) (heap st a) Again errorInfo now))) b)
                else ((heap st)(a := fst (review_card (params st) (zone st) (heap st a) Again errorInfo now))) b)"
    using reactivation_happens[OF assms, of meta errorInfo now rs] h by (simp add: R_def G_def)
  have len: "length R = min 3 (length G)" by (simp add: R_def length_shuffle)
  have "set R \<subseteq> set G" unfolding R_def using set_take_subset[of 3 "shuffle G rs"]
    by (simp add: set_shuffle)
  then have sub: "set R \<subseteq> set (getSiblingCards st (pattern_group meta))"
    and grad: "\<forall>b\<in>set R. graduated (heap st b)"
    by (auto simp: G_def getGraduatedSiblings_def)
  show "let G = getGraduatedSiblings st (pattern_group meta);
               R = take 3 (shuffle G rs);
               st' = fst (processReview st cardId grade errorInfo now rs)
           in length R = min 3 (length G) \<and>
              set R \<subseteq> set (getSiblingCards st (pattern_group meta)) \<and>
              (\<forall>b\<in>set R. graduated (heap st b) \<and>
                 \<not> graduated (heap st' b) \<and> state (heap st' b) = Relearning \<and>
                 learning_step (heap st' b) = 0 \<and> consecutive_correct (heap st' b) = 0 \<and>
                 due (heap st' b) = now) \<and>
              (\<forall>b. b \<notin> set R \<and> b \<noteq> a \<longrightarrow> heap st' b = heap st b)"
    unfolding Let_def G_def[symmetric] R_def[symmetric]
    using len sub grad by (simp add: heap' restore_def)
next
  assume "grade \<noteq> Again \<or> (\<forall>m. drillMeta st cardId = Some m \<longrightarrow> \<not> is_canonical m)"
  then show "\<forall>b. \<not> (graduated (heap st b) \<and>
                   \<not> graduated (heap (fst (processReview st cardId grade errorInfo now rs)) b) \<and>
                   state (heap (fst (processReview st cardId grade errorInfo now rs)) b) = Relearning)"
    using no_reactivation[OF assms] by blast
qed

theorem reactivation_on_canonical_lapse_witness:
  "\<not> graduated (heap (fst (processReview demo ''a'' Again (Some ''grammar'') 1000 [])) 2) \<and>
   state (heap (fst (processReview demo ''a'' Again (Some ''grammar'') 1000 [])) 2) = Relearning \<and>
   learning_step (heap (fst (processReview demo ''a'' Again (Some ''grammar'') 1000 [])) 2) = 0 \<and>
   consecutive_correct (heap (fst (processReview demo ''a'' Again (Some ''grammar'') 1000 [])) 2) = 0 \<and>
   due (heap (fst (processReview demo ''a'' Again (Some ''grammar'') 1000 [])) 2) = 1000"
proof -
  have G: "getGraduatedSiblings demo (Some ''g'') = [2]"
    by (simp add: getGraduatedSiblings_def getSiblingCards_def in_pattern_group_def demo_def
        demo_card_def createCard_def)
  have R: "take 3 (shuffle [2::nat] []) = [2]" by (simp add: shuffle_def)
  have L: "reactivationLapseThreshold (params demo) \<le>
      recentLapses (zone demo) (track_error (heap demo 0) (Some ''grammar'') 1000) 1000"
    by (simp add: recentLapses_def count_recent_def add_days_def UTC_def LocalTime_def
        utc_zone_def track_error_def day_ms_def demo_def demo_card_def
        createCard_def default_params_def Let_def)
  have M: "map_of (cards demo) ''a'' = Some 0"
    "drillMeta demo ''a'' = Some \<lparr>pattern_group = Some ''g'', is_canonical = True\<rparr>"
    by (simp_all add: demo_def)
  show ?thesis
    using reactivation_on_canonical_lapse[OF M(1), of Again
        "\<lparr>pattern_group = Some ''g'', is_canonical = True\<rparr>" "Some ''grammar''" 1000 "[]"]
      M(2) L
    by (simp add: G R Let_def)
qed

subsection \<open>C7\<close>

text \<open>
  C7. The candidates of the reactivation check are the graduated cards of the pattern
  group, the reviewed card among them when it has graduated: nothing excludes it, as the
  filter \<open>s.id !== card.id\<close> of the graduation check does. Graded Again, the graduated
  canonical card \<open>a\<close> of \<open>lapsed_demo\<close> is a candidate of its own reactivation and is
  restored, due at \<open>now\<close> instead of one relearning step later.
\<close>

theorem reactivation_includes_trigger:
  "map_of (cards lapsed_demo) ''a'' = Some 0 \<and>
   graduated (heap lapsed_demo 0) \<and>
   0 \<in> set (getGraduatedSiblings lapsed_demo (Some ''g'')) \<and>
   \<not> graduated (heap (fst (processReview lapsed_demo ''a'' Again (Some ''grammar'') 1000 [])) 0) \<and>
   state (heap (fst (processReview lapsed_demo ''a'' Again (Some ''grammar'') 1000 [])) 0) = Relearning \<and>
   due (heap (fst (processReview lapsed_demo ''a'' Again (Some ''grammar'') 1000 [])) 0) = 1000"
proof -
  have G: "getGraduatedSiblings lapsed_demo (Some ''g'') = [0, 2]"
    by (simp add: getGraduatedSiblings_def getSiblingCards_def in_pattern_group_def
        lapsed_demo_def demo_def demo_card_def createCard_def)
  have R: "take 3 (shuffle [0::nat, 2] []) = [2, 0]" by (simp add: shuffle_def)
  have L: "reactivationLapseThreshold (params lapsed_demo) \<le>
      recentLapses (zone lapsed_demo) (track_error (heap lapsed_demo 0) (Some ''grammar'') 1000) 1000"
    by (simp add: recentLapses_def count_recent_def add_days_def UTC_def LocalTime_def
        utc_zone_def track_error_def day_ms_def lapsed_demo_def demo_def
        demo_card_def createCard_def default_params_def Let_def)
  have M: "map_of (cards lapsed_demo) ''a'' = Some 0"
    "drillMeta lapsed_demo ''a'' = Some \<lparr>pattern_group = Some ''g'', is_canonical = True\<rparr>"
    and g0: "graduated (heap lapsed_demo 0)"
    by (simp_all add: lapsed_demo_def demo_def)
  have "heap (fst (processReview lapsed_demo ''a'' Again (Some ''grammar'') 1000 [])) 0 =
      restore 1000 (fst (review_card (params lapsed_demo) (zone lapsed_demo) (heap lapsed_demo 0) Again
         (Some ''grammar'') 1000))"
    using reactivation_happens[OF M(1) M(2) _ _ L, of "[]"] by (simp add: G R)
  then show ?thesis using M(1) g0 by (simp add: G restore_def)
qed

subsection \<open>C8\<close>

text \<open>
  C8 (as found). The claim that \<open>getNextCard\<close> returns a card of another pattern whenever
  \<open>lastPattern\<close> is set and the queue holds one fails when the recorded pattern is the
  empty string, the pattern of a card created without one: the front card is returned
  although its pattern is the recorded one and the second card has another.
\<close>

theorem getNextCard_empty_pattern_counterexample:
  "sessionQueue (demo\<lparr>sessionQueue := [0, 1], lastPattern := Some []\<rparr>) \<noteq> [] \<and>
   lastPattern (demo\<lparr>sessionQueue := [0, 1], lastPattern := Some []\<rparr>) = Some [] \<and>
   1 \<in> set (sessionQueue (demo\<lparr>sessionQueue := [0, 1], lastPattern := Some []\<rparr>)) \<and>
   pos_pattern (heap (demo\<lparr>sessionQueue := [0, 1], lastPattern := Some []\<rparr>) 1) \<noteq> [] \<and>
   snd (getNextCard (demo\<lparr>sessionQueue := [0, 1], lastPattern := Some []\<rparr>) 1000) = Some 0 \<and>
   pos_pattern (heap (demo\<lparr>sessionQueue := [0, 1], lastPattern := Some []\<rparr>) 0) = []"
  by (simp add: getNextCard_def demo_def demo_card_def createCard_def)

text \<open>
  C8 (amended). If the session queue is not empty, \<open>lastPattern\<close> is a non-empty string and
  some queued card has another \<open>pos_pattern\<close>, then \<open>getNextCard\<close> returns the first
  queued card whose pattern differs from \<open>lastPattern\<close>, and the queue keeps all other
  entries in their order.
\<close>

theorem getNextCard_rotation:
  assumes "sessionQueue st \<noteq> []"
    and "lastPattern st = Some lp" and "lp \<noteq> []"
    and "\<exists>c\<in>set (sessionQueue st). pos_pattern (heap st c) \<noteq> lp"
  shows "getNextCard st now =
           (st\<lparr>sessionQueue :=
                 takeWhile (\<lambda>c. pos_pattern (heap st c) = lp) (sessionQueue st) @
                 tl (dropWhile (\<lambda>c. pos_pattern (heap st c) = lp) (sessionQueue st))\<rparr>,
            Some (hd (dropWhile (\<lambda>c. pos_pattern (heap st c) = lp) (sessionQueue st)))) \<and>
         pos_pattern (heap st (hd (dropWhile (\<lambda>c. pos_pattern (heap st c) = lp) (sessionQueue st))))
           \<noteq> lp"
proof -
  define q where "q = sessionQueue st"
  define same where "same = (\<lambda>c. pos_pattern (heap st c) = lp)"
  define i where "i = length (takeWhile same q)"
  have ex: "\<exists>c\<in>set q. \<not> same c" using assms(4) by (simp add: q_def same_def)
  then have dw: "dropWhile same q \<noteq> []" by (simp add: dropWhile_eq_Nil_conv)
  have idx: "findIndex (\<lambda>c. pos_pattern (heap st c) \<noteq> lp) q = int i"
    using ex by (simp add: findIndex_takeWhile i_def same_def)
  have tk: "take i q = takeWhile same q" unfolding i_def by (rule takeWhile_eq_take[symmetric])
  have dr: "drop i q = dropWhile same q" unfolding i_def by (rule dropWhile_eq_drop[symmetric])
  have il: "i < length q" using dr dw by (metis drop_all not_le_imp_less)
  have dr': "drop (Suc i) q = tl (dropWhile same q)"
    using dr by (metis drop_Suc tl_drop)
  have nth: "q ! i = hd (dropWhile same q)"
    using dr il by (metis hd_drop_conv_nth)
  have res: "getNextCard st now = (st\<lparr>sessionQueue := take i q @ drop (Suc i) q\<rparr>, Some (q ! i))"
  proof (cases "i = 0")
    case True
    then show ?thesis using assms(1,2,3) idx
      by (simp add: getNextCard_def Let_def hd_conv_nth drop_Suc flip: q_def)
  next
    case False
    then have "0 < i" by simp
    then show ?thesis using assms(1,2,3) idx
      by (simp add: getNextCard_def Let_def flip: q_def)
  qed
  have "\<not> same (hd (dropWhile same q))" using dw by (rule hd_dropWhile)
  then show ?thesis
    using res unfolding tk dr' nth by (simp add: q_def same_def)
qed

theorem getNextCard_rotation_witness:
  "getNextCard (demo\<lparr>sessionQueue := [1, 2, 0], lastPattern := Some ''NV''\<rparr>) 1000 =
     (demo\<lparr>sessionQueue := [1, 2], lastPattern := Some ''NV''\<rparr>, Some 0) \<and>
   pos_pattern (heap demo 0) \<noteq> ''NV''"
  using getNextCard_rotation[of "demo\<lparr>sessionQueue := [1, 2, 0], lastPattern := Some ''NV''\<rparr>"
          "''NV''" 1000]
  by (simp add: demo_def demo_card_def createCard_def)

subsection \<open>C9\<close>

text \<open>
  C9. The guard \<open>if (!card) return null\<close> reads \<open>this.cards[cardId]\<close> through the prototype
  chain: an id that has no card but names a property of \<open>Object.prototype\<close>, such as
  \<open>constructor\<close>, finds a built-in object and passes the guard. Then \<open>processReview\<close>
  raises a RangeError on the grade Good, raises a TypeError when an error is supplied, and
  on the grade Again returns a result, counts a review and records a pattern; \<open>resetCard\<close>
  stores a new card under the id.
\<close>

theorem inherited_id_passes_guard:
  "map_of (cards demo) ''constructor'' = None \<and>
   snd (processReview demo ''constructor'' Good None 1000 []) = RangeError \<and>
   snd (processReview demo ''constructor'' Again (Some ''grammar'') 1000 []) = TypeError \<and>
   snd (processReview demo ''constructor'' Again None 1000 []) =
     Returned \<lparr>res_card = None, res_interval = 1 / (60 * 24), intervalDisplay = Minutes 1,
               nextDue = 1000 + minute_ms\<rparr> \<and>
   sessionStats (fst (processReview demo ''constructor'' Again None 1000 [])) =
     \<lparr>reviewed = 1, correct = 0, incorrect = 1\<rparr> \<and>
   map_option cards (resetCard demo ''constructor'' 1000) =
     Some [(''a'', 0), (''b'', 1), (''c'', 2), (''constructor'', 3)]"
  by (simp add: processReview_def builtin_review_def resetCard_def lookup_card_def
      card_history_def object_prototype_names_def checkReactivation_def update_stats_def
      step_at_def add_minutes_def UTC_def LocalTime_def utc_zone_def minute_ms_def
      demo_def default_params_def Let_def)

subsection \<open>C10\<close>

text \<open>
  C10. With the default parameter vector, for a difficulty in [1, 10], a stability
  \<open>s > 0\<close>, a retrievability in [0, 1] and a grade Hard, Good or Easy,
  \<open>nextReviewStability\<close> is at least \<open>s\<close>.
\<close>

theorem review_stability_grows:
  assumes "1 \<le> d" "d \<le> 10" "0 < s" "0 \<le> r" "r \<le> 1" "grade \<noteq> Again"
  shows "s \<le> nextReviewStability default_params d s r grade"
proof -
  define hardPenalty :: real where "hardPenalty = (if grade = Hard then 0.29 else 1)"
  define easyBonus :: real where "easyBonus = (if grade = Easy then 2.61 else 1)"
  define sinc where "sinc = exp (1.49::real) * (11 - d) * (s powr (- 0.14)) *
      (exp (0.94 * (1 - r)) - 1) * hardPenalty * easyBonus"
  have eq: "nextReviewStability default_params d s r grade = s * (sinc + 1)"
    by (simp add: nextReviewStability_def default_params_def sinc_def hardPenalty_def
        easyBonus_def Let_def)
  have f1: "0 \<le> exp (1.49::real)" by simp
  have f2: "0 \<le> 11 - d" using assms(2) by simp
  have f3: "0 \<le> s powr (- 0.14)" by simp
  have "0 \<le> 0.94 * (1 - r)" using assms(5) by simp
  then have f4: "0 \<le> exp (0.94 * (1 - r)) - 1" by simp
  have f5: "0 \<le> hardPenalty" by (simp add: hardPenalty_def)
  have f6: "0 \<le> easyBonus" by (simp add: easyBonus_def)
  have "0 \<le> sinc" unfolding sinc_def
    using f1 f2 f3 f4 f5 f6 by (intro mult_nonneg_nonneg)
  then have "s * 1 \<le> s * (sinc + 1)" using assms(3) by (intro mult_left_mono) simp_all
  then show ?thesis by (simp add: eq)
qed

theorem review_stability_grows_witness:
  "(1::real) \<le> nextReviewStability default_params 5 1 (9 / 10) Good"
  using review_stability_grows[of 5 1 "9 / 10" Good] by simp

end
